theory Spec2Isabelle
  imports Main "HOL-Library.Word"
begin

unbundle bit_operations_syntax

section \<open>Byte strings\<close>

text \<open>
  The middleware is Python 2 code: every \<open>str\<close> is a byte string. A Python \<open>str\<close> is a
  \<^typ>\<open>string\<close> here (a list of \<^typ>\<open>char\<close>, each one byte); \<open>of_char\<close> reads the byte's
  value and \<open>char_of\<close> builds the byte of a value below 256.
\<close>

definition startswith :: "string \<Rightarrow> string \<Rightarrow> bool" where
  \<comment> \<open>\<open>s.startswith(p)\<close>\<close>
  "startswith s p = (take (length p) s = p)"

definition endswith :: "string \<Rightarrow> string \<Rightarrow> bool" where
  \<comment> \<open>\<open>s.endswith(p)\<close>\<close>
  "endswith s p = (drop (length s - length p) s = p \<and> length p \<le> length s)"

definition lower_char :: "char \<Rightarrow> char" where
  "lower_char c =
     (if 65 \<le> (of_char c :: nat) \<and> (of_char c :: nat) \<le> 90
      then char_of ((of_char c :: nat) + 32) else c)"

definition lower :: "string \<Rightarrow> string" where
  \<comment> \<open>\<open>s.lower()\<close> on a byte string: the ASCII capitals only\<close>
  "lower s = map lower_char s"

fun py_split :: "char \<Rightarrow> nat \<Rightarrow> string \<Rightarrow> string list" where
  \<comment> \<open>\<open>s.split(sep, maxsplit)\<close> for a separator of one character: at most \<open>maxsplit\<close>
      cuts, the last piece keeps the rest\<close>
  "py_split sep 0 s = [s]"
| "py_split sep (Suc n) s =
     (case dropWhile (\<lambda>c. c \<noteq> sep) s of
        [] \<Rightarrow> [s]
      | _ # rest \<Rightarrow> takeWhile (\<lambda>c. c \<noteq> sep) s # py_split sep n rest)"

subsection \<open>\<open>os.path.join\<close> (posixpath)\<close>

text \<open>
  \<^verbatim>\<open>
  def join(a, *p):
      path = a
      for b in p:
          if b.startswith('/'):
              path = b
          elif path == '' or path.endswith('/'):
              path += b
          else:
              path += '/' + b
      return path
  \<close>
  A component that begins with the separator discards everything joined before it.
\<close>

definition join_step :: "string \<Rightarrow> string \<Rightarrow> string" where
  "join_step path b =
     (if startswith b ''/'' then b
      else if path = [] \<or> endswith path ''/'' then path @ b
      else path @ ''/'' @ b)"

definition os_path_join :: "string \<Rightarrow> string list \<Rightarrow> string" where
  "os_path_join a p = foldl join_step a p"

subsection \<open>\<open>base64.b64encode\<close> and \<open>base64.b64decode\<close>\<close>

definition b64_char :: "nat \<Rightarrow> char" where
  \<comment> \<open>the encoding table \<open>A-Z a-z 0-9 + /\<close>\<close>
  "b64_char i =
     (if i < 26 then char_of (i + 65)
      else if i < 52 then char_of (i + 71)
      else if i < 62 then char_of (i - 4)
      else if i = 62 then CHR ''+'' else CHR ''/'')"

definition b64_value :: "char \<Rightarrow> nat option" where
  \<comment> \<open>the decoding table of \<open>binascii\<close>: \<open>None\<close> is its entry -1; the pad character has
      the entry 0\<close>
  "b64_value c =
     (let n = (of_char c :: nat) in
      if 65 \<le> n \<and> n \<le> 90 then Some (n - 65)
      else if 97 \<le> n \<and> n \<le> 122 then Some (n - 71)
      else if 48 \<le> n \<and> n \<le> 57 then Some (n + 4)
      else if n = 43 then Some 62
      else if n = 47 then Some 63
      else if n = 61 then Some 0
      else None)"

fun b2a_base64 :: "nat list \<Rightarrow> string" where
  \<comment> \<open>three bytes give four characters; a last group of one or two bytes is padded\<close>
  "b2a_base64 (a # b # c # r) =
     [b64_char (a div 4), b64_char ((a mod 4) * 16 + b div 16),
      b64_char ((b mod 16) * 4 + c div 64), b64_char (c mod 64)] @ b2a_base64 r"
| "b2a_base64 [a, b] =
     [b64_char (a div 4), b64_char ((a mod 4) * 16 + b div 16),
      b64_char ((b mod 16) * 4), CHR ''='']"
| "b2a_base64 [a] = [b64_char (a div 4), b64_char ((a mod 4) * 16), CHR ''='', CHR ''='']"
| "b2a_base64 [] = []"

definition b64encode :: "string \<Rightarrow> string" where
  "b64encode s = b2a_base64 (map of_char s)"

fun find_valid :: "string \<Rightarrow> nat \<Rightarrow> char option" where
  \<comment> \<open>\<open>binascii_find_valid\<close>: the \<open>(num+1)\<close>-th character of the table, if any\<close>
  "find_valid [] num = None"
| "find_valid (c # cs) num =
     (if (of_char c :: nat) \<le> 127 \<and> b64_value c \<noteq> None
      then (case num of 0 \<Rightarrow> Some c | Suc n \<Rightarrow> find_valid cs n)
      else find_valid cs num)"

text \<open>
  The decoding loop of \<open>binascii.a2b_base64\<close>, which \<open>base64.b64decode\<close> of Python 2 calls.
  It skips every character outside the table, collects six bits per character in
  \<open>leftchar\<close> (a C \<open>unsigned int\<close>, 32 bits) and emits a byte whenever eight bits are ready. A pad
  character ends the input once at least two characters of the current group of four have been
  read (at exactly two, only when the next table character is a pad as well). The result is the
  pair of the bits left over and the bytes decoded.
\<close>

fun a2b_loop :: "string \<Rightarrow> nat \<Rightarrow> nat \<Rightarrow> nat \<Rightarrow> string \<Rightarrow> nat \<times> string" where
  "a2b_loop [] quad_pos leftchar leftbits bin = (leftbits, bin)"
| "a2b_loop (c # cs) quad_pos leftchar leftbits bin =
     (if (of_char c :: nat) > 127 \<or> c = CHR 0x0D \<or> c = CHR 0x0A \<or> c = CHR '' ''
      then a2b_loop cs quad_pos leftchar leftbits bin
      else if c = CHR ''=''
      then (if quad_pos < 2 \<or> (quad_pos = 2 \<and> find_valid (c # cs) 1 \<noteq> Some (CHR ''=''))
            then a2b_loop cs quad_pos leftchar leftbits bin
            else (0, bin))
      else (case b64_value c of
              None \<Rightarrow> a2b_loop cs quad_pos leftchar leftbits bin
            | Some v \<Rightarrow>
                if leftbits + 6 \<ge> 8
                then a2b_loop cs ((quad_pos + 1) mod 4)
                       (((push_bit 6 leftchar mod 2 ^ 32) OR v) AND (2 ^ (leftbits + 6 - 8) - 1))
                       (leftbits + 6 - 8)
                       (bin @ [char_of (drop_bit (leftbits + 6 - 8)
                                 ((push_bit 6 leftchar mod 2 ^ 32) OR v) AND 255)])
                else a2b_loop cs ((quad_pos + 1) mod 4)
                       ((push_bit 6 leftchar mod 2 ^ 32) OR v) (leftbits + 6) bin))"

definition b64decode :: "string \<Rightarrow> string option" where
  \<comment> \<open>\<open>None\<close> is the \<open>TypeError\<close> that Python 2 raises for "Incorrect padding"\<close>
  "b64decode s =
     (case a2b_loop s 0 0 0 [] of (leftbits, bin) \<Rightarrow> if leftbits \<noteq> 0 then None else Some bin)"

subsection \<open>\<open>hashlib.sha256\<close> and \<open>hmac\<close>\<close>

type_synonym u32 = "32 word"
type_synonym hstate = "u32 \<times> u32 \<times> u32 \<times> u32 \<times> u32 \<times> u32 \<times> u32 \<times> u32"

definition rotr :: "nat \<Rightarrow> u32 \<Rightarrow> u32" where
  "rotr n x = (drop_bit n x) OR (push_bit (32 - n) x)"

definition Ch :: "u32 \<Rightarrow> u32 \<Rightarrow> u32 \<Rightarrow> u32" where
  "Ch x y z = (x AND y) XOR (NOT x AND z)"

definition Maj :: "u32 \<Rightarrow> u32 \<Rightarrow> u32 \<Rightarrow> u32" where
  "Maj x y z = (x AND y) XOR (x AND z) XOR (y AND z)"

definition bsig0 :: "u32 \<Rightarrow> u32" where
  "bsig0 x = rotr 2 x XOR rotr 13 x XOR rotr 22 x"

definition bsig1 :: "u32 \<Rightarrow> u32" where
  "bsig1 x = rotr 6 x XOR rotr 11 x XOR rotr 25 x"

definition ssig0 :: "u32 \<Rightarrow> u32" where
  "ssig0 x = rotr 7 x XOR rotr 18 x XOR drop_bit 3 x"

definition ssig1 :: "u32 \<Rightarrow> u32" where
  "ssig1 x = rotr 17 x XOR rotr 19 x XOR drop_bit 10 x"

definition K256 :: "u32 list" where
  "K256 =
   [1116352408, 1899447441, 3049323471, 3921009573, 961987163, 1508970993, 2453635748, 2870763221,
    3624381080, 310598401, 607225278, 1426881987, 1925078388, 2162078206, 2614888103, 3248222580,
    3835390401, 4022224774, 264347078, 604807628, 770255983, 1249150122, 1555081692, 1996064986,
    2554220882, 2821834349, 2952996808, 3210313671, 3336571891, 3584528711, 113926993, 338241895,
    666307205, 773529912, 1294757372, 1396182291, 1695183700, 1986661051, 2177026350, 2456956037,
    2730485921, 2820302411, 3259730800, 3345764771, 3516065817, 3600352804, 4094571909, 275423344,
    430227734, 506948616, 659060556, 883997877, 958139571, 1322822218, 1537002063, 1747873779,
    1955562222, 2024104815, 2227730452, 2361852424, 2428436474, 2756734187, 3204031479, 3329325298]"

definition H256 :: hstate where
  "H256 = (1779033703, 3144134277, 1013904242, 2773480762,
           1359893119, 2600822924, 528734635, 1541459225)"

fun expand :: "nat \<Rightarrow> u32 list \<Rightarrow> u32 list" where
  \<comment> \<open>the message schedule: \<open>ws\<close> holds the sixteen words before the next one\<close>
  "expand 0 ws = []"
| "expand (Suc n) ws =
     (let w = ssig1 (ws ! 14) + ws ! 9 + ssig0 (ws ! 1) + ws ! 0
      in w # expand n (tl ws @ [w]))"

fun rounds :: "u32 list \<Rightarrow> u32 list \<Rightarrow> hstate \<Rightarrow> hstate" where
  "rounds (k # ks) (w # ws) (a, b, c, d, e, f, g, h) =
     (let T1 = h + bsig1 e + Ch e f g + k + w;
          T2 = bsig0 a + Maj a b c
      in rounds ks ws (T1 + T2, a, b, c, d + T1, e, f, g))"
| "rounds _ _ s = s"

fun add_state :: "hstate \<Rightarrow> hstate \<Rightarrow> hstate" where
  "add_state (a, b, c, d, e, f, g, h) (a', b', c', d', e', f', g', h') =
     (a + a', b + b', c + c', d + d', e + e', f + f', g + g', h + h')"

definition compress :: "hstate \<Rightarrow> u32 list \<Rightarrow> hstate" where
  "compress s block = add_state s (rounds K256 (block @ expand 48 block) s)"

function process :: "hstate \<Rightarrow> u32 list \<Rightarrow> hstate" where
  "process s ws =
     (if length ws < 16 then s else process (compress s (take 16 ws)) (drop 16 ws))"
  by pat_completeness auto
termination
  by (relation "measure (\<lambda>(s, ws). length ws)") auto

fun be_words :: "string \<Rightarrow> u32 list" where
  "be_words (a # b # c # d # r) =
     (push_bit 24 (of_char a) OR push_bit 16 (of_char b) OR push_bit 8 (of_char c) OR of_char d)
       # be_words r"
| "be_words _ = []"

definition be_bytes :: "nat \<Rightarrow> nat \<Rightarrow> string" where
  \<comment> \<open>the \<open>n\<close> low bytes of \<open>v\<close>, the most significant first\<close>
  "be_bytes n v = map (\<lambda>i. char_of (v div 256 ^ i)) (rev [0..<n])"

definition sha_pad :: "string \<Rightarrow> string" where
  "sha_pad m =
     m @ [char_of (128 :: nat)]
       @ replicate ((119 - length m mod 64) mod 64) (char_of (0 :: nat))
       @ be_bytes 8 ((8 * length m) mod 2 ^ 64)"

fun state_bytes :: "hstate \<Rightarrow> string" where
  "state_bytes (a, b, c, d, e, f, g, h) =
     concat (map (\<lambda>w. be_bytes 4 (unat w)) [a, b, c, d, e, f, g, h])"

definition sha256 :: "string \<Rightarrow> string" where
  \<comment> \<open>\<open>hashlib.sha256(m).digest()\<close>\<close>
  "sha256 m = state_bytes (process H256 (be_words (sha_pad m)))"

definition xor_byte :: "nat \<Rightarrow> char \<Rightarrow> char" where
  "xor_byte k c = char_of ((of_char c :: nat) XOR k)"

text \<open>
  \<open>hmac.new(key, msg, digestmod=hashlib.sha256).digest()\<close>: a key longer than the block of 64
  bytes is hashed first, the key is filled with zero bytes to the block size, the inner hash
  runs over the key xor \<open>0x36\<close> followed by the message and the outer hash over the key xor
  \<open>0x5C\<close> followed by the inner digest.
\<close>

definition hmac_sha256 :: "string \<Rightarrow> string \<Rightarrow> string" where
  "hmac_sha256 key msg =
     (let key1 = (if length key > 64 then sha256 key else key);
          key2 = key1 @ replicate (64 - length key1) (char_of (0 :: nat))
      in sha256 (map (xor_byte 0x5C) key2 @ sha256 (map (xor_byte 0x36) key2 @ msg)))"

section \<open>Helpers of Swift that the middleware calls\<close>

text \<open>
  Modelled from the spec: \<open>split_path\<close> of \<open>swift.common.utils\<close> is imported by the
  middleware and is not among the sources. The spec describes its two uses: the request target
  splits into "2-4 path segments, trailing segment may be empty", and a decoded token parses as
  "exactly 3 path segments (account, container, object)". Both calls pass
  \<open>rest_with_last=True\<close>, which is the only mode modelled: the path is cut at the first
  \<open>maxsegs\<close> separators, so the last segment takes the rest of the path, separators included;
  the path must begin with the separator, the first \<open>minsegs\<close> segments must not be empty, and
  segments that are missing are \<open>None\<close>. \<open>None\<close> as the result is the \<open>ValueError\<close>.
\<close>

definition split_path :: "string \<Rightarrow> nat \<Rightarrow> nat \<Rightarrow> string option list option" where
  "split_path path minsegs maxsegs0 =
     (let maxsegs = (if maxsegs0 = 0 then minsegs else maxsegs0) in
      if minsegs > maxsegs then None
      else (case py_split (CHR ''/'') maxsegs path of
              [] \<Rightarrow> None
            | s0 # segs \<Rightarrow>
                if s0 \<noteq> [] \<or> length segs < minsegs \<or> length segs > maxsegs
                   \<or> [] \<in> set (take minsegs segs)
                then None
                else Some (map Some (take maxsegs segs)
                           @ replicate (maxsegs - length (take maxsegs segs)) None)))"

text \<open>
  Modelled from the spec: \<open>is_sys_meta\<close> and \<open>strip_sys_meta_prefix\<close> of
  \<open>swift.common.request_helpers\<close> are not among the sources. The comment in
  \<open>error_if_need_keys\<close> gives the header names they recognise,
  \<open>x-<server_type>-sysmeta-...\<close>, compared without regard to case.
\<close>

definition get_sys_meta_prefix :: "string \<Rightarrow> string" where
  "get_sys_meta_prefix server_type = ''x-'' @ lower server_type @ ''-sysmeta-''"

definition is_sys_meta :: "string \<Rightarrow> string \<Rightarrow> bool" where
  "is_sys_meta server_type key =
     (length key > length (get_sys_meta_prefix server_type)
      \<and> startswith (lower key) (get_sys_meta_prefix server_type))"

definition strip_sys_meta_prefix :: "string \<Rightarrow> string \<Rightarrow> string" where
  "strip_sys_meta_prefix server_type key = drop (length (get_sys_meta_prefix server_type)) key"

section \<open>Requests, responses and the wrapped application\<close>

type_synonym header_list = "(string \<times> string) list"
type_synonym keyset = "string \<rightharpoonup> string"

text \<open>
  The WSGI environment of a request, as far as the middleware reads or writes it:
  \<open>REQUEST_METHOD\<close>, the path, the request headers, the truth value of
  \<open>environ.get('swift.crypto.override')\<close> and the entry
  \<open>environ['swift.crypto.fetch_crypto_keys']\<close>. That entry is the bound method
  \<open>fetch_crypto_keys\<close> of the request's context, which returns the context's \<open>keys\<close>; the
  middleware never changes \<open>keys\<close> after it has stored the callback, so the entry is modelled
  by the KeySet the callback returns (\<open>None\<close>: the environment has no such entry).
\<close>

record request =
  req_method :: string
  path_info :: string
  req_headers :: "string \<rightharpoonup> string"
  crypto_override :: bool
  fetch_crypto_keys_env :: "keyset option"

record response =
  resp_status :: string
  resp_headers :: header_list
  resp_body :: string

text \<open>
  The wrapped application: it answers a request and may change the environment, which is a
  dictionary shared with the middleware.
\<close>

type_synonym wsgi_app = "request \<Rightarrow> response \<times> request"

datatype error = ValueError | TypeError | HTTPUnprocessableEntity string

section \<open>\<open>TrivialKeyMaster\<close>\<close>

record keymaster =
  app :: wsgi_app
  root_key :: string

definition TrivialKeyMaster :: "wsgi_app \<Rightarrow> (string \<rightharpoonup> string) \<Rightarrow> keymaster" where
  \<comment> \<open>\<open>__init__(self, app, conf)\<close>; the logger made from \<open>conf\<close> has no part in any result\<close>
  "TrivialKeyMaster wrapped conf = \<lparr>app = wrapped, root_key = ''secret''\<rparr>"

definition filter_factory ::
  "(string \<rightharpoonup> string) \<Rightarrow> (string \<rightharpoonup> string) \<Rightarrow> wsgi_app \<Rightarrow> keymaster" where
  "filter_factory global_conf local_conf wrapped = TrivialKeyMaster wrapped (global_conf ++ local_conf)"

definition create_key :: "keymaster \<Rightarrow> string \<Rightarrow> string" where
  "create_key self key_id = hmac_sha256 (root_key self) key_id"

section \<open>\<open>TrivialKeyMasterContext\<close>\<close>

text \<open>
  The fields of the context. \<open>container\<close> and \<open>obj\<close> are \<open>None\<close> or a string, as
  \<open>split_path\<close> returns them. \<open>response_status\<close> and \<open>response_headers\<close> are the attributes
  \<open>_response_status\<close> and \<open>_response_headers\<close> that the call of the wrapped application
  sets; \<open>None\<close> before that call.
\<close>

record ctx =
  keymaster :: keymaster
  account :: string
  container :: "string option"
  obj :: "string option"
  keys :: keyset
  account_path :: string
  container_path :: "string option"
  obj_path :: "string option"
  server_type :: string
  response_status :: "string option"
  response_headers :: "header_list option"

definition truthy :: "string option \<Rightarrow> bool" where
  \<comment> \<open>Python's truth value of \<open>None\<close> or a string\<close>
  "truthy v = (case v of None \<Rightarrow> False | Some s \<Rightarrow> s \<noteq> [])"

definition init_keys :: "ctx \<Rightarrow> ctx" where
  \<comment> \<open>\<open>_init_keys\<close>\<close>
  "init_keys self =
     (let self1 = self\<lparr>keys := Map.empty,
                       account_path := os_path_join ''/'' [account self],
                       container_path := None, obj_path := None,
                       server_type := ''account''\<rparr>
      in case container self1 of
           None \<Rightarrow> self1
         | Some cont \<Rightarrow>
             if cont = [] then self1
             else
               (let cp = os_path_join (account_path self1) [cont];
                    self2 = self1\<lparr>server_type := ''container'', container_path := Some cp,
                                  keys := (keys self1)(''container'' \<mapsto>
                                            create_key (keymaster self1) cp)\<rparr>
                in case obj self2 of
                     None \<Rightarrow> self2
                   | Some ob \<Rightarrow>
                       if ob = [] then self2
                       else
                         (let op = os_path_join cp [ob]
                          in self2\<lparr>server_type := ''object'', obj_path := Some op,
                                    keys := (keys self2)(''object'' \<mapsto>
                                              create_key (keymaster self2) op)\<rparr>)))"

definition TrivialKeyMasterContext ::
  "keymaster \<Rightarrow> string \<Rightarrow> string option \<Rightarrow> string option \<Rightarrow> ctx" where
  \<comment> \<open>\<open>__init__(self, keymaster, account, container, obj)\<close>\<close>
  "TrivialKeyMasterContext km acc cont ob =
     init_keys \<lparr>keymaster = km, account = acc, container = cont, obj = ob,
                keys = Map.empty, account_path = [], container_path = None, obj_path = None,
                server_type = [], response_status = None, response_headers = None\<rparr>"

definition fetch_crypto_keys :: "ctx \<Rightarrow> keyset" where
  "fetch_crypto_keys self = keys self"

text \<open>
  Modelled from the spec: \<open>WSGIContext\<close> of \<open>swift.common.wsgi\<close>, the base class of the
  context, is not among the sources. \<open>_app_call\<close> calls the wrapped application ("the downstream
  collaborator produces a response") and keeps the status and the headers of its response in
  the context; \<open>_response_header_value\<close> looks a header of that response up by its name
  ("look for the crypto-id token in the response's object metadata"), without regard to case.
\<close>

definition app_call :: "ctx \<Rightarrow> request \<Rightarrow> ctx \<times> string \<times> request" where
  "app_call self env =
     (case app (keymaster self) env of
        (resp, env1) \<Rightarrow>
          (self\<lparr>response_status := Some (resp_status resp),
                 response_headers := Some (resp_headers resp)\<rparr>,
           resp_body resp, env1))"

fun response_header_value :: "header_list \<Rightarrow> string \<Rightarrow> string option" where
  "response_header_value [] key = None"
| "response_header_value ((h_key, val) # hs) key =
     (if lower h_key = lower key then Some val else response_header_value hs key)"

text \<open>
  What a handler of the context leaves behind: the status and headers it passes to
  \<open>start_response\<close>, the body it returns, the environment and the context when it returns,
  and the environment as the wrapped application received it.
\<close>

record result =
  res_status :: "string option"
  res_headers :: "header_list option"
  res_body :: string
  res_environ :: request
  res_context :: ctx
  res_forwarded :: request

definition handle_post_or_put :: "ctx \<Rightarrow> request \<Rightarrow> error + result" where
  \<comment> \<open>\<open>_handle_post_or_put\<close>\<close>
  "handle_post_or_put self req =
     (let req1 = req\<lparr>fetch_crypto_keys_env := Some (fetch_crypto_keys self)\<rparr>
      in case app_call self req1 of
           (self1, resp, env1) \<Rightarrow>
             Inr \<lparr>res_status = response_status self1, res_headers = response_headers self1,
                  res_body = resp, res_environ = env1, res_context = self1,
                  res_forwarded = req1\<rparr>)"

text \<open>
  \<open>get_obj_persisted_sysmeta_prefix()\<close> of \<open>swift.common.request_helpers\<close> is not among the
  sources: the prefix it returns is the parameter \<open>pfx\<close> of the functions below.
  \<open>req.headers[name] = value\<close> stores the header in the request's environment.
\<close>

definition PUT :: "string \<Rightarrow> ctx \<Rightarrow> request \<Rightarrow> error + result" where
  "PUT pfx self req =
     handle_post_or_put self
       (case obj_path self of
          None \<Rightarrow> req
        | Some p \<Rightarrow>
            if p = [] then req
            else req\<lparr>req_headers := (req_headers req)(pfx @ ''crypto-id'' \<mapsto> b64encode p)\<rparr>)"

definition POST :: "ctx \<Rightarrow> request \<Rightarrow> error + result" where
  "POST self req = handle_post_or_put self req"

definition error_if_need_keys :: "ctx \<Rightarrow> request \<Rightarrow> error + unit" where
  "error_if_need_keys self req =
     (case response_headers self of
        None \<Rightarrow> Inr ()
      | Some hs \<Rightarrow>
          if list_ex (\<lambda>(h, v). startswith (lower (strip_sys_meta_prefix (server_type self) h))
                                 ''crypto-meta-'')
               (filter (\<lambda>(h, v). is_sys_meta (server_type self) h) hs)
          then Inl (HTTPUnprocessableEntity (''Cannot get necessary keys for path '' @ path_info req))
          else Inr ())"

text \<open>
  The body of the \<open>try\<close> statement of \<open>provide_keys_get_or_head\<close>, up to the two paths that
  the keys are made from. \<open>Inl ValueError\<close> is each way into its \<open>except ValueError\<close>: no
  token or an empty one, a token that \<open>b64decode\<close> rejects (its \<open>TypeError\<close> is caught and
  raised again as a \<open>ValueError\<close>), and a decoded path that \<open>split_path\<close> rejects.
  \<open>split_path\<close> with \<open>minsegs = maxsegs = 3\<close> returns three strings or fails, so the last
  case of the inner \<open>case\<close> is never taken. \<open>Inl TypeError\<close> is the failure outside the
  \<open>except\<close> clause: \<open>_response_header_value\<close> on a context that has no response headers.
\<close>

definition key_id_paths :: "string \<Rightarrow> ctx \<Rightarrow> error + string \<times> string" where
  "key_id_paths pfx self =
     (case response_headers self of
        None \<Rightarrow> Inl TypeError
      | Some hs \<Rightarrow>
          (case response_header_value hs (pfx @ ''crypto-id'') of
             None \<Rightarrow> Inl ValueError
           | Some tok \<Rightarrow>
               if tok = [] then Inl ValueError
               else (case b64decode tok of
                       None \<Rightarrow> Inl ValueError
                     | Some obj_key_path \<Rightarrow>
                         (case split_path obj_key_path 3 3 of
                            None \<Rightarrow> Inl ValueError
                          | Some [Some path_acc, Some path_cont, Some path_obj] \<Rightarrow>
                              Inr (os_path_join ''/'' [path_acc, path_cont], obj_key_path)
                          | Some _ \<Rightarrow> Inl ValueError))))"

definition provide_keys_get_or_head :: "string \<Rightarrow> ctx \<Rightarrow> request \<Rightarrow> error + ctx \<times> request" where
  "provide_keys_get_or_head pfx self req =
     (case (if truthy (obj_path self)
            then (case key_id_paths pfx self of
                    Inr (cont_key_path, obj_key_path) \<Rightarrow>
                      Inr (self\<lparr>keys := (keys self)
                              (''container'' \<mapsto> create_key (keymaster self) cont_key_path,
                               ''object'' \<mapsto> create_key (keymaster self) obj_key_path)\<rparr>, req)
                  | Inl ValueError \<Rightarrow> Inr (self, req\<lparr>crypto_override := True\<rparr>)
                  | Inl e \<Rightarrow> Inl e)
            else Inr (self, req)) of
        Inl e \<Rightarrow> Inl e
      | Inr (self1, req1) \<Rightarrow>
          Inr (self1,
               if \<not> crypto_override req1
               then req1\<lparr>fetch_crypto_keys_env := Some (fetch_crypto_keys self1)\<rparr>
               else req1))"

definition handle_get_or_head :: "string \<Rightarrow> ctx \<Rightarrow> request \<Rightarrow> error + result" where
  \<comment> \<open>\<open>_handle_get_or_head\<close>\<close>
  "handle_get_or_head pfx self req =
     (case app_call self req of
        (self1, resp, env1) \<Rightarrow>
          (case provide_keys_get_or_head pfx self1 env1 of
             Inl e \<Rightarrow> Inl e
           | Inr (self2, env2) \<Rightarrow>
               Inr \<lparr>res_status = response_status self2, res_headers = response_headers self2,
                    res_body = resp, res_environ = env2, res_context = self2,
                    res_forwarded = req\<rparr>))"

definition GET :: "string \<Rightarrow> ctx \<Rightarrow> request \<Rightarrow> error + result" where
  "GET pfx self req = handle_get_or_head pfx self req"

definition HEAD :: "string \<Rightarrow> ctx \<Rightarrow> request \<Rightarrow> error + result" where
  "HEAD pfx self req = handle_get_or_head pfx self req"

section \<open>The dispatcher \<open>TrivialKeyMaster.__call__\<close>\<close>

text \<open>
  \<open>hasattr(TrivialKeyMasterContext, req.method)\<close> holds for every attribute of the class: the
  names that its body defines, listed here, and the names it inherits from \<open>WSGIContext\<close> and
  \<open>object\<close>, which are not among the sources and are the parameter \<open>inherited\<close> of the
  dispatcher.
\<close>

definition class_attributes :: "string list" where
  "class_attributes =
     [''__init__'', ''_init_keys'', ''_handle_post_or_put'', ''PUT'', ''POST'', ''GET'', ''HEAD'',
      ''_handle_get_or_head'', ''error_if_need_keys'', ''provide_keys_get_or_head'',
      ''fetch_crypto_keys'']"

definition hasattr :: "(string \<Rightarrow> bool) \<Rightarrow> string \<Rightarrow> bool" where
  "hasattr inherited name = (name \<in> set class_attributes \<or> inherited name)"

text \<open>
  \<open>getattr(km_context, req.method)(req, start_response)\<close> for a name that the class body
  defines. Six of the methods take a request and \<open>start_response\<close>; the others take fewer or
  more arguments, and calling them with these two raises a \<open>TypeError\<close>.
\<close>

definition call_method :: "string \<Rightarrow> ctx \<Rightarrow> string \<Rightarrow> request \<Rightarrow> error + result" where
  "call_method pfx self name req =
     (if name = ''PUT'' then PUT pfx self req
      else if name = ''POST'' then POST self req
      else if name = ''GET'' then GET pfx self req
      else if name = ''HEAD'' then HEAD pfx self req
      else if name = ''_handle_post_or_put'' then handle_post_or_put self req
      else if name = ''_handle_get_or_head'' then handle_get_or_head pfx self req
      else Inl TypeError)"

text \<open>
  How \<open>__call__\<close> ends: the request went to the wrapped application as it came
  (\<open>Passed_through\<close>, with that application's answer), a context was built and one of its
  methods answered (\<open>Handled\<close>), an \<open>HTTPException\<close> of a method became the response
  (\<open>Error_response\<close>), another exception left \<open>__call__\<close> (\<open>Raised\<close>), or a context was built
  and an attribute inherited from the base classes was called (\<open>Inherited_called\<close>, with the
  context).
\<close>

datatype outcome =
    Passed_through "response \<times> request"
  | Handled result
  | Error_response error
  | Raised error
  | Inherited_called ctx

definition call :: "keymaster \<Rightarrow> string \<Rightarrow> (string \<Rightarrow> bool) \<Rightarrow> request \<Rightarrow> outcome" where
  \<comment> \<open>\<open>__call__\<close>; \<open>parts[1:]\<close> are the account, the container and the object\<close>
  "call self pfx inherited env =
     (case split_path (path_info env) 2 4 of
        None \<Rightarrow> Passed_through (app self env)
      | Some parts \<Rightarrow>
          if hasattr inherited (req_method env)
          then (case parts of
                  [version, Some acc, cont, ob] \<Rightarrow>
                    (let km_context = TrivialKeyMasterContext self acc cont ob
                     in if req_method env \<in> set class_attributes
                        then (case call_method pfx km_context (req_method env) env of
                                Inr r \<Rightarrow> Handled r
                              | Inl (HTTPUnprocessableEntity msg) \<Rightarrow>
                                  Error_response (HTTPUnprocessableEntity msg)
                              | Inl e \<Rightarrow> Raised e)
                        else Inherited_called km_context)
                | _ \<Rightarrow> Raised TypeError)
          else Passed_through (app self env))"

section \<open>Example collaborators\<close>

text \<open>
  A wrapped application that answers every request with status 200 and the given response
  headers and leaves the environment alone, and a request with no headers, no override flag
  and no callback. They are the concrete inputs at which the theorems below are instantiated.
\<close>

definition example_app :: "header_list \<Rightarrow> wsgi_app" where
  "example_app hs env = (\<lparr>resp_status = ''200 OK'', resp_headers = hs, resp_body = ''data''\<rparr>, env)"

definition example_request :: "string \<Rightarrow> string \<Rightarrow> request" where
  "example_request m p =
     \<lparr>req_method = m, path_info = p, req_headers = Map.empty, crypto_override = False,
      fetch_crypto_keys_env = None\<rparr>"


section \<open>Facts about the library functions\<close>

subsection \<open>Splitting paths\<close>

lemma dropWhile_sep:
  assumes "dropWhile (\<lambda>c. c \<noteq> sep) s = d # rest"
  shows "d = sep \<and> s = takeWhile (\<lambda>c. c \<noteq> sep) s @ sep # rest"
proof -
  have "\<not> (d \<noteq> sep)"
    using assms hd_dropWhile [of "\<lambda>c. c \<noteq> sep" s] by auto
  moreover have "s = takeWhile (\<lambda>c. c \<noteq> sep) s @ dropWhile (\<lambda>c. c \<noteq> sep) s"
    by simp
  ultimately show ?thesis using assms by simp
qed

lemma py_split_no_sep:
  assumes "sep \<notin> set s"
  shows "py_split sep n s = [s]"
proof -
  have "dropWhile (\<lambda>c. c \<noteq> sep) s = []"
    using assms by (auto simp: dropWhile_eq_Nil_conv)
  then show ?thesis by (cases n) (simp_all del: dropWhile_eq_Nil_conv)
qed

lemma py_split_cut:
  "sep \<notin> set x \<Longrightarrow> py_split sep (Suc n) (x @ sep # rest) = x # py_split sep n rest"
  by (simp add: dropWhile_append3 takeWhile_tail dropWhile_append)

lemma py_split_Cons2:
  assumes "py_split sep (Suc n) s = x # y # ys"
  shows "sep \<notin> set x \<and> (\<exists>rest. s = x @ sep # rest \<and> py_split sep n rest = y # ys)"
proof (cases "dropWhile (\<lambda>c. c \<noteq> sep) s")
  case Nil
  with assms show ?thesis by simp
next
  case (Cons d rest)
  from dropWhile_sep [OF Cons] have s: "s = takeWhile (\<lambda>c. c \<noteq> sep) s @ sep # rest" by simp
  from assms Cons have x: "x = takeWhile (\<lambda>c. c \<noteq> sep) s" and r: "py_split sep n rest = y # ys"
    by simp_all
  have "sep \<notin> set x" unfolding x
    by (metis (mono_tags, lifting) set_takeWhileD)
  with s x r show ?thesis by auto
qed

lemma py_split_not_Nil: "py_split sep n s \<noteq> []"
  by (cases n) (auto split: list.splits)

lemma py_split_single: "py_split sep n s = [x] \<Longrightarrow> x = s"
  by (cases n) (auto simp: py_split_not_Nil split: list.splits)

lemma length_py_split: "length (py_split sep n s) \<le> Suc n"
  by (induction n arbitrary: s) (auto split: list.splits)

lemma split_path_3_3_D:
  assumes "split_path p 3 3 = Some parts"
  shows "\<exists>a c ob. parts = [Some a, Some c, Some ob] \<and> a \<noteq> [] \<and> CHR ''/'' \<notin> set a
           \<and> c \<noteq> [] \<and> CHR ''/'' \<notin> set c \<and> ob \<noteq> []
           \<and> p = ''/'' @ a @ ''/'' @ c @ ''/'' @ ob"
proof -
  obtain s0 segs where ps: "py_split (CHR ''/'') 3 p = s0 # segs"
    using py_split_not_Nil [of "CHR ''/''" 3 p] by (cases "py_split (CHR ''/'') 3 p") auto
  from assms ps have s0: "s0 = []" and len: "length segs = 3" and ne: "[] \<notin> set segs"
    and parts: "parts = map Some segs"
    by (auto simp: split_path_def split: if_splits)
  from len obtain a c ob where segs: "segs = [a, c, ob]"
    by (auto simp: length_Suc_conv numeral_3_eq_3)
  from ps s0 segs have "py_split (CHR ''/'') (Suc 2) p = [] # a # [c, ob]"
    by (simp add: numeral_3_eq_3 numeral_2_eq_2)
  from py_split_Cons2 [OF this] obtain r1 where
    p: "p = CHR ''/'' # r1" and r1: "py_split (CHR ''/'') 2 r1 = [a, c, ob]" by auto
  from r1 have "py_split (CHR ''/'') (Suc 1) r1 = a # c # [ob]" by (simp add: numeral_2_eq_2)
  from py_split_Cons2 [OF this] obtain r2 where
    a: "CHR ''/'' \<notin> set a" and r1': "r1 = a @ CHR ''/'' # r2"
    and r2: "py_split (CHR ''/'') 1 r2 = [c, ob]" by auto
  from r2 have "py_split (CHR ''/'') (Suc 0) r2 = c # ob # []" by simp
  from py_split_Cons2 [OF this] obtain r3 where
    c: "CHR ''/'' \<notin> set c" and r2': "r2 = c @ CHR ''/'' # r3"
    and r3: "py_split (CHR ''/'') 0 r3 = [ob]" by auto
  from r3 have "r3 = ob" by simp
  with p r1' r2' a c ne segs parts show ?thesis by auto
qed

lemma split_path_3_3_I:
  assumes "a \<noteq> []" "CHR ''/'' \<notin> set a" "c \<noteq> []" "CHR ''/'' \<notin> set c" "ob \<noteq> []"
  shows "split_path (''/'' @ a @ ''/'' @ c @ ''/'' @ ob) 3 3 = Some [Some a, Some c, Some ob]"
proof -
  let ?sep = "CHR ''/''"
  have 1: "py_split ?sep (Suc 0) (c @ ?sep # ob) = c # py_split ?sep 0 ob"
    using assms(4) by (rule py_split_cut)
  have 2: "py_split ?sep (Suc (Suc 0)) (a @ ?sep # (c @ ?sep # ob))
           = a # py_split ?sep (Suc 0) (c @ ?sep # ob)"
    using assms(2) by (rule py_split_cut)
  have 3: "py_split ?sep (Suc (Suc (Suc 0))) ([] @ ?sep # (a @ ?sep # (c @ ?sep # ob)))
           = [] # py_split ?sep (Suc (Suc 0)) (a @ ?sep # (c @ ?sep # ob))"
    by (rule py_split_cut) simp
  have "py_split ?sep 3 (''/'' @ a @ ''/'' @ c @ ''/'' @ ob) = [[], a, c, ob]"
    using 1 2 3 by (simp add: numeral_3_eq_3)
  then show ?thesis using assms by (simp add: split_path_def)
qed

lemma split_path_2_4_D:
  assumes "split_path p 2 4 = Some parts"
  shows "\<exists>ver acc cont ob. parts = [Some ver, Some acc, cont, ob] \<and> ver \<noteq> [] \<and> acc \<noteq> []"
proof -
  obtain s0 segs where ps: "py_split (CHR ''/'') 4 p = s0 # segs"
    using py_split_not_Nil [of "CHR ''/''" 4 p] by (cases "py_split (CHR ''/'') 4 p") auto
  from assms ps have len: "2 \<le> length segs" "length segs \<le> 4" and ne: "[] \<notin> set (take 2 segs)"
    and parts: "parts = map Some segs @ replicate (4 - length segs) None"
    by (auto simp: split_path_def split: if_splits)
  from len obtain ver acc rest where segs: "segs = ver # acc # rest" and r: "length rest \<le> 2"
    by (cases segs; cases "tl segs") auto
  from r consider "rest = []" | x where "rest = [x]" | x y where "rest = [x, y]"
    by (cases rest; cases "tl rest") auto
  then show ?thesis using parts segs ne
    by cases (auto simp: numeral_2_eq_2 eval_nat_numeral)
qed

subsection \<open>Base64: decoding inverts encoding\<close>

lemma and_exp_minus_1: "(x::nat) AND (2 ^ k - 1) = x mod 2 ^ k"
  unfolding mask_eq_exp_minus_1 [symmetric] take_bit_eq_mask [symmetric] take_bit_eq_mod
  by (rule refl)

lemma and_255: "(x::nat) AND 255 = x mod 256"
  using and_exp_minus_1 [of x 8] by simp

lemma shift_or:
  assumes "v < 64"
  shows "(push_bit 6 (lc::nat)) OR v = lc * 64 + v"
proof -
  have v: "take_bit 6 v = v" using assms by (simp add: take_bit_nat_eq_self)
  have "push_bit 6 lc AND take_bit 6 v = 0"
    by (rule bit_eqI) (auto simp: bit_simps)
  then have "push_bit 6 lc + v = push_bit 6 lc OR v"
    using v disjunctive_add_eq_or [of "push_bit 6 lc" v] by simp
  then show ?thesis by (simp add: push_bit_eq_mult)
qed

lemma b64_char_props:
  assumes "i < 64"
  shows "\<not> (of_char (b64_char i) :: nat) > 127" "b64_char i \<noteq> CHR 0x0D"
    "b64_char i \<noteq> CHR 0x0A" "b64_char i \<noteq> CHR '' ''" "b64_char i \<noteq> CHR ''=''"
    "b64_value (b64_char i) = Some i"
proof -
  have n: "(of_char (b64_char i) :: nat) =
      (if i < 26 then i + 65 else if i < 52 then i + 71 else if i < 62 then i - 4
       else if i = 62 then 43 else 47)"
    using assms by (simp add: b64_char_def)
  have eq: "\<And>c d. (c = d) = ((of_char c :: nat) = of_char d)" by simp
  show "\<not> (of_char (b64_char i) :: nat) > 127" using assms unfolding n by auto
  show "b64_char i \<noteq> CHR 0x0D" using assms unfolding eq [of "b64_char i"] n by auto
  show "b64_char i \<noteq> CHR 0x0A" using assms unfolding eq [of "b64_char i"] n by auto
  show "b64_char i \<noteq> CHR '' ''" using assms unfolding eq [of "b64_char i"] n by auto
  show "b64_char i \<noteq> CHR ''=''" using assms unfolding eq [of "b64_char i"] n by auto
  show "b64_value (b64_char i) = Some i" using assms unfolding b64_value_def n Let_def by auto
qed

lemma a2b_loop_valid:
  assumes "i < 64" "lc < 64"
  shows "a2b_loop (b64_char i # cs) q lc lb bin =
     (if 8 \<le> lb + 6
      then a2b_loop cs ((q + 1) mod 4) ((lc * 64 + i) mod 2 ^ (lb + 6 - 8)) (lb + 6 - 8)
             (bin @ [char_of ((lc * 64 + i) div 2 ^ (lb + 6 - 8) mod 256)])
      else a2b_loop cs ((q + 1) mod 4) (lc * 64 + i) (lb + 6) bin)"
proof -
  have "push_bit 6 lc mod 2 ^ 32 = push_bit 6 lc"
    using assms(2) by (simp add: push_bit_eq_mult)
  then have sh: "(push_bit 6 lc mod 2 ^ 32) OR i = lc * 64 + i"
    using shift_or [OF assms(1), of lc] by simp
  show ?thesis
    by (simp only: a2b_loop.simps b64_char_props [OF assms(1)] sh and_exp_minus_1 and_255
          drop_bit_eq_div if_False option.case simp_thms)
qed

lemma regroup16: "(a::nat) div 4 * 64 + (a mod 4 * 16 + x) = 16 * a + x"
proof -
  have "p * 64 + (r * 16 + x) = 16 * (p * 4 + r) + x" for p r :: nat
    by simp
  from this [of "a div 4" "a mod 4"] show ?thesis
    by (simp only: div_mult_mod_eq)
qed

lemma regroup4: "(b::nat) div 16 * 64 + (b mod 16 * 4 + x) = 4 * b + x"
proof -
  have "p * 64 + (r * 4 + x) = 4 * (p * 16 + r) + x" for p r :: nat
    by simp
  from this [of "b div 16" "b mod 16"] show ?thesis
    by (simp only: div_mult_mod_eq)
qed

lemma sextets_first:
  fixes a b :: nat
  assumes "a < 256" "b < 256"
  shows "(a div 4 * 64 + (a mod 4 * 16 + b div 16)) div 16 mod 256 = a"
    and "(a div 4 * 64 + (a mod 4 * 16 + b div 16)) mod 16 = b div 16"
proof -
  have x: "b div 16 < 16" using assms(2) by (simp add: less_mult_imp_div_less)
  show "(a div 4 * 64 + (a mod 4 * 16 + b div 16)) div 16 mod 256 = a"
    unfolding regroup16 using x assms(1) by simp
  show "(a div 4 * 64 + (a mod 4 * 16 + b div 16)) mod 16 = b div 16"
    unfolding regroup16 using x by simp
qed

lemma sextets_second:
  fixes b c :: nat
  assumes "b < 256" "c < 256"
  shows "(b div 16 * 64 + (b mod 16 * 4 + c div 64)) div 4 mod 256 = b"
    and "(b div 16 * 64 + (b mod 16 * 4 + c div 64)) mod 4 = c div 64"
proof -
  have x: "c div 64 < 4" using assms(2) by (simp add: less_mult_imp_div_less)
  show "(b div 16 * 64 + (b mod 16 * 4 + c div 64)) div 4 mod 256 = b"
    unfolding regroup4 using x assms(1) by simp
  show "(b div 16 * 64 + (b mod 16 * 4 + c div 64)) mod 4 = c div 64"
    unfolding regroup4 using x by simp
qed

lemma sextets_third:
  fixes c :: nat
  assumes "c < 256"
  shows "(c div 64 * 64 + c mod 64) mod 256 = c"
  using assms by simp

lemma sextet_bounds:
  fixes a b c :: nat
  assumes "a < 256" "b < 256" "c < 256"
  shows "a div 4 < 64" "a mod 4 * 16 + b div 16 < 64" "b mod 16 * 4 + c div 64 < 64"
    "c mod 64 < 64" "b div 16 < 64" "c div 64 < 64"
proof -
  have x: "b div 16 < 16" "c div 64 < 4" "a div 4 < 64"
    using assms by (simp_all add: less_mult_imp_div_less)
  have y: "a mod 4 < 4" "b mod 16 < 16" by simp_all
  show "a div 4 < 64" by (rule x)
  show "a mod 4 * 16 + b div 16 < 64" using x(1) y(1) by linarith
  show "b mod 16 * 4 + c div 64 < 64" using x(2) y(2) by linarith
  show "c mod 64 < 64" by simp
  show "b div 16 < 64" using x(1) by simp
  show "c div 64 < 64" using x(2) by simp
qed

lemma a2b_loop_group:
  assumes "a < 256" "b < 256" "c < 256"
  shows "a2b_loop ([b64_char (a div 4), b64_char ((a mod 4) * 16 + b div 16),
                    b64_char ((b mod 16) * 4 + c div 64), b64_char (c mod 64)] @ cs) 0 0 0 bin
         = a2b_loop cs 0 0 0 (bin @ [char_of a, char_of b, char_of c])"
proof -
  let ?i1 = "a div 4" and ?i2 = "(a mod 4) * 16 + b div 16"
  let ?i3 = "(b mod 16) * 4 + c div 64" and ?i4 = "c mod 64"
  note i = sextet_bounds [OF assms]
  have z64: "(0::nat) < 64" by simp
  have q: "(0 + 1) mod 4 = (1::nat)" "(1 + 1) mod 4 = (2::nat)" "(2 + 1) mod 4 = (3::nat)"
    "(3 + 1) mod 4 = (0::nat)" by simp_all
  have lb: "8 \<le> (6::nat) + 6" "(6::nat) + 6 - 8 = 4" "8 \<le> (4::nat) + 6" "(4::nat) + 6 - 8 = 2"
    "8 \<le> (2::nat) + 6" "(2::nat) + 6 - 8 = 0" by simp_all
  have pw: "(2::nat) ^ 4 = 16" "(2::nat) ^ 2 = 4" by simp_all
  have s1: "a2b_loop (b64_char ?i1 # r) 0 0 0 bin = a2b_loop r 1 ?i1 6 bin" for r
    unfolding a2b_loop_valid [OF i(1) z64] by simp
  have s2: "a2b_loop (b64_char ?i2 # r) 1 ?i1 6 bin = a2b_loop r 2 (b div 16) 4 (bin @ [char_of a])"
    for r
    unfolding a2b_loop_valid [OF i(2) i(1)] q lb pw sextets_first [OF assms(1,2)] by simp
  have s3: "a2b_loop (b64_char ?i3 # r) 2 (b div 16) 4 bin'
            = a2b_loop r 3 (c div 64) 2 (bin' @ [char_of b])" for r bin'
    unfolding a2b_loop_valid [OF i(3) i(5)] q lb pw sextets_second [OF assms(2,3)] by simp
  have s4: "a2b_loop (b64_char ?i4 # r) 3 (c div 64) 2 bin' = a2b_loop r 0 0 0 (bin' @ [char_of c])"
    for r bin'
    unfolding a2b_loop_valid [OF i(4) i(6)] q lb pw sextets_third [OF assms(3)] by simp
  show ?thesis
    by (simp only: append_Cons append_Nil s1 s2 s3 s4 append_assoc)
qed

lemma a2b_loop_last1:
  assumes "a < 256"
  shows "a2b_loop [b64_char (a div 4), b64_char ((a mod 4) * 16), CHR ''='', CHR ''=''] 0 0 0 bin
         = (0, bin @ [char_of a])"
proof -
  let ?i1 = "a div 4" and ?i2 = "(a mod 4) * 16"
  have z: "(0::nat) < 256" by simp
  have i: "?i1 < 64" "?i2 < 64"
    using sextet_bounds(1,2) [OF assms z z] by simp_all
  have z64: "(0::nat) < 64" by simp
  have q: "(0 + 1) mod 4 = (1::nat)" "(1 + 1) mod 4 = (2::nat)" "(2 + 1) mod 4 = (3::nat)"
    "(3 + 1) mod 4 = (0::nat)" by simp_all
  have lb: "8 \<le> (6::nat) + 6" "(6::nat) + 6 - 8 = 4" "8 \<le> (4::nat) + 6" "(4::nat) + 6 - 8 = 2"
    "8 \<le> (2::nat) + 6" "(2::nat) + 6 - 8 = 0" by simp_all
  have pw: "(2::nat) ^ 4 = 16" "(2::nat) ^ 2 = 4" by simp_all
  have s1: "a2b_loop (b64_char ?i1 # r) 0 0 0 bin = a2b_loop r 1 ?i1 6 bin" for r
    unfolding a2b_loop_valid [OF i(1) z64] by simp
  have e2: "(?i1 * 64 + ?i2) div 16 mod 256 = a"
    using sextets_first(1) [OF assms z] by simp
  have s2: "a2b_loop (b64_char ?i2 # r) 1 ?i1 6 bin
            = a2b_loop r 2 ((?i1 * 64 + ?i2) mod 16) 4 (bin @ [char_of a])" for r
    unfolding a2b_loop_valid [OF i(2) i(1)] q lb pw e2 by simp
  have s3: "a2b_loop [CHR ''='', CHR ''=''] 2 lc 4 bin' = (0, bin')" for lc bin'
    by (simp add: b64_value_def)
  show ?thesis by (simp only: s1 s2 s3)
qed

lemma a2b_loop_last2:
  assumes "a < 256" "b < 256"
  shows "a2b_loop [b64_char (a div 4), b64_char ((a mod 4) * 16 + b div 16),
                   b64_char ((b mod 16) * 4), CHR ''=''] 0 0 0 bin
         = (0, bin @ [char_of a, char_of b])"
proof -
  let ?i1 = "a div 4" and ?i2 = "(a mod 4) * 16 + b div 16" and ?i3 = "(b mod 16) * 4"
  have z: "(0::nat) < 256" by simp
  note j = sextet_bounds [OF assms z]
  have i3: "?i3 < 64" using j(3) by simp
  have z64: "(0::nat) < 64" by simp
  have q: "(0 + 1) mod 4 = (1::nat)" "(1 + 1) mod 4 = (2::nat)" "(2 + 1) mod 4 = (3::nat)"
    "(3 + 1) mod 4 = (0::nat)" by simp_all
  have lb: "8 \<le> (6::nat) + 6" "(6::nat) + 6 - 8 = 4" "8 \<le> (4::nat) + 6" "(4::nat) + 6 - 8 = 2"
    "8 \<le> (2::nat) + 6" "(2::nat) + 6 - 8 = 0" by simp_all
  have pw: "(2::nat) ^ 4 = 16" "(2::nat) ^ 2 = 4" by simp_all
  have s1: "a2b_loop (b64_char ?i1 # r) 0 0 0 bin = a2b_loop r 1 ?i1 6 bin" for r
    unfolding a2b_loop_valid [OF j(1) z64] by simp
  have s2: "a2b_loop (b64_char ?i2 # r) 1 ?i1 6 bin = a2b_loop r 2 (b div 16) 4 (bin @ [char_of a])"
    for r
    unfolding a2b_loop_valid [OF j(2) j(1)] q lb pw sextets_first [OF assms] by simp
  have e3: "(b div 16 * 64 + ?i3) div 4 mod 256 = b"
    using sextets_second(1) [OF assms(2) z] by simp
  have s3: "a2b_loop (b64_char ?i3 # r) 2 (b div 16) 4 bin'
            = a2b_loop r 3 ((b div 16 * 64 + ?i3) mod 4) 2 (bin' @ [char_of b])" for r bin'
    unfolding a2b_loop_valid [OF i3 j(5)] q lb pw e3 by simp
  have s4: "a2b_loop [CHR ''=''] 3 lc 2 bin' = (0, bin')" for lc bin'
    by simp
  show ?thesis by (simp only: s1 s2 s3 s4 append_assoc append_Cons append_Nil)
qed

lemma a2b_loop_b2a_base64:
  assumes "\<forall>x \<in> set bs. x < 256"
  shows "a2b_loop (b2a_base64 bs) 0 0 0 bin = (0, bin @ map char_of bs)"
  using assms
proof (induction bs arbitrary: bin rule: b2a_base64.induct)
  case (1 a b c r)
  then have abc: "a < 256" "b < 256" "c < 256" and r: "\<forall>x \<in> set r. x < 256"
    by simp_all
  show ?case
    unfolding b2a_base64.simps a2b_loop_group [OF abc] "1.IH" [OF r] by simp
next
  case (2 a b)
  then have ab: "a < 256" "b < 256" by simp_all
  show ?case unfolding b2a_base64.simps a2b_loop_last2 [OF ab] by simp
next
  case (3 a)
  then have a: "a < 256" by simp
  show ?case unfolding b2a_base64.simps a2b_loop_last1 [OF a] by simp
next
  case 4
  then show ?case by simp
qed

lemma b64decode_b64encode: "b64decode (b64encode s) = Some s"
proof -
  have "\<forall>x \<in> set (map of_char s :: nat list). x < 256" by simp
  from a2b_loop_b2a_base64 [OF this, of "[]"] show ?thesis
    by (simp add: b64decode_def b64encode_def comp_def)
qed


subsection \<open>SHA-256: the test vector of FIPS 180\<close>

text \<open>
  The digest of \<open>abc\<close> is \<open>ba7816bf 8f01cfea 414140de 5dae2223 b00361a3 96177a9c b410ff61
  f20015ad\<close>; the model computes it, one block through the compression function.
\<close>

lemma upt_0_4: "[0..<4] = [0, 1, 2, 3::nat]"
  by code_simp

lemma upt_0_8: "[0..<8] = [0, 1, 2, 3, 4, 5, 6, 7::nat]"
  by code_simp

lemma be_bytes_4:
  "be_bytes 4 v = [char_of (v div 16777216), char_of (v div 65536), char_of (v div 256), char_of v]"
  by (simp add: be_bytes_def upt_0_4)

lemma be_bytes_8:
  "be_bytes 8 v = [char_of (v div 256 ^ 7), char_of (v div 256 ^ 6), char_of (v div 256 ^ 5),
     char_of (v div 256 ^ 4), char_of (v div 16777216), char_of (v div 65536), char_of (v div 256),
     char_of v]"
  by (simp add: be_bytes_def upt_0_8)

lemma sha_pad_abc:
  "be_words (sha_pad ''abc'') = [1633837952, 0, 0, 0, 0, 0, 0, 0, 0, 0, 0, 0, 0, 0, 0, 24]"
proof -
  have r: "replicate 52 c = [c, c, c, c, c, c, c, c, c, c, c, c, c, c, c, c, c, c, c, c, c, c, c, c,
      c, c, c, c, c, c, c, c, c, c, c, c, c, c, c, c, c, c, c, c, c, c, c, c, c, c, c, c]" for c :: char
    by code_simp
  have c: "char_of (128::nat) = CHR 0x80" "char_of (0::nat) = CHR 0x00"
    "char_of (24::nat) = CHR 0x18"
    by (simp_all add: char_of_eq_iff)
  show ?thesis
    by (simp add: sha_pad_def be_bytes_8 r c)
qed

lemma state_bytes_abc:
  "map of_char (state_bytes (3128432319, 2399260650, 1094795486, 1571693091, 2953011619, 2518121116, 3021012833, 4060091821))
   = ([186, 120, 22, 191, 143, 1, 207, 234, 65, 65, 64, 222, 93, 174, 34, 35, 176, 3, 97, 163,
       150, 23, 122, 156, 180, 16, 255, 97, 242, 0, 21, 173] :: nat list)"
  by (simp add: be_bytes_4)

lemma process_one_block:
  "process s [w0, w1, w2, w3, w4, w5, w6, w7, w8, w9, w10, w11, w12, w13, w14, w15]
   = compress s [w0, w1, w2, w3, w4, w5, w6, w7, w8, w9, w10, w11, w12, w13, w14, w15]"
  by (subst process.simps) (simp add: process.simps [of _ "[]"])

lemma compress_abc:
  "compress H256 [1633837952, 0, 0, 0, 0, 0, 0, 0, 0, 0, 0, 0, 0, 0, 0, 24]
   = (3128432319, 2399260650, 1094795486, 1571693091, 2953011619, 2518121116, 3021012833, 4060091821)"
  by code_simp

lemma sha256_abc:
  "map of_char (sha256 ''abc'')
   = ([186, 120, 22, 191, 143, 1, 207, 234, 65, 65, 64, 222, 93, 174, 34, 35, 176, 3, 97, 163,
       150, 23, 122, 156, 180, 16, 255, 97, 242, 0, 21, 173] :: nat list)"
  unfolding sha256_def sha_pad_abc process_one_block compress_abc
  by (rule state_bytes_abc)


section \<open>Facts about the middleware\<close>

subsection \<open>Paths and the context\<close>

lemma startswith_slash: "startswith b ''/'' \<longleftrightarrow> (\<exists>r. b = CHR ''/'' # r)"
  by (cases b) (auto simp: startswith_def)

lemma endswith_slash: "endswith p ''/'' \<longleftrightarrow> (p \<noteq> [] \<and> last p = CHR ''/'')"
proof (cases p rule: rev_cases)
  case Nil
  then show ?thesis by (simp add: endswith_def)
next
  case (snoc ys y)
  then show ?thesis by (auto simp: endswith_def)
qed

lemma no_slash_not_startswith: "CHR ''/'' \<notin> set b \<Longrightarrow> \<not> startswith b ''/''"
  by (auto simp: startswith_slash)

lemma join_root: "\<not> startswith acc ''/'' \<Longrightarrow> os_path_join ''/'' [acc] = ''/'' @ acc"
  by (simp add: os_path_join_def join_step_def endswith_slash)

lemma join_below:
  assumes "p \<noteq> []" "last p \<noteq> CHR ''/''" "\<not> startswith b ''/''"
  shows "os_path_join p [b] = p @ ''/'' @ b"
  using assms by (simp add: os_path_join_def join_step_def endswith_slash)

lemma join_absolute: "startswith b ''/'' \<Longrightarrow> os_path_join p [b] = b"
  by (simp add: os_path_join_def join_step_def)

lemma join_two: "os_path_join p [a, b] = os_path_join (os_path_join p [a]) [b]"
  by (simp add: os_path_join_def)

lemma join_not_empty: "b \<noteq> [] \<Longrightarrow> os_path_join p [b] \<noteq> []"
  by (simp add: os_path_join_def join_step_def)

lemma join_container_path:
  assumes "a \<noteq> []" "CHR ''/'' \<notin> set a" "CHR ''/'' \<notin> set c"
  shows "os_path_join ''/'' [a, c] = ''/'' @ a @ ''/'' @ c"
proof -
  have 1: "os_path_join ''/'' [a] = ''/'' @ a"
    using assms(2) by (simp add: join_root no_slash_not_startswith)
  have "last (''/'' @ a) \<noteq> CHR ''/''"
    using assms(1,2) by (metis last_appendR last_in_set)
  then have "os_path_join (''/'' @ a) [c] = (''/'' @ a) @ ''/'' @ c"
    using assms(3) by (intro join_below) (simp_all add: no_slash_not_startswith)
  with 1 show ?thesis by (simp add: join_two)
qed

text \<open>The context after \<open>__init__\<close>, at each of the three levels.\<close>

lemma context_account_level:
  assumes "\<not> truthy cont"
  shows "TrivialKeyMasterContext km acc cont ob =
     \<lparr>keymaster = km, account = acc, container = cont, obj = ob, keys = Map.empty,
      account_path = os_path_join ''/'' [acc], container_path = None, obj_path = None,
      server_type = ''account'', response_status = None, response_headers = None\<rparr>"
  using assms
  by (auto simp: TrivialKeyMasterContext_def init_keys_def truthy_def split: option.splits)

lemma context_container_level:
  assumes "cont \<noteq> []" "\<not> truthy ob"
  shows "TrivialKeyMasterContext km acc (Some cont) ob =
     \<lparr>keymaster = km, account = acc, container = Some cont, obj = ob,
      keys = [''container'' \<mapsto> create_key km (os_path_join (os_path_join ''/'' [acc]) [cont])],
      account_path = os_path_join ''/'' [acc],
      container_path = Some (os_path_join (os_path_join ''/'' [acc]) [cont]), obj_path = None,
      server_type = ''container'', response_status = None, response_headers = None\<rparr>"
  using assms
  by (auto simp: TrivialKeyMasterContext_def init_keys_def truthy_def Let_def split: option.splits)

lemma context_object_level:
  assumes "cont \<noteq> []" "ob \<noteq> []"
  shows "TrivialKeyMasterContext km acc (Some cont) (Some ob) =
     \<lparr>keymaster = km, account = acc, container = Some cont, obj = Some ob,
      keys = [''container'' \<mapsto> create_key km (os_path_join (os_path_join ''/'' [acc]) [cont]),
              ''object'' \<mapsto> create_key km
                 (os_path_join (os_path_join (os_path_join ''/'' [acc]) [cont]) [ob])],
      account_path = os_path_join ''/'' [acc],
      container_path = Some (os_path_join (os_path_join ''/'' [acc]) [cont]),
      obj_path = Some (os_path_join (os_path_join (os_path_join ''/'' [acc]) [cont]) [ob]),
      server_type = ''object'', response_status = None, response_headers = None\<rparr>"
  using assms
  by (simp add: TrivialKeyMasterContext_def init_keys_def Let_def)

lemma object_level_obj_path_truthy:
  assumes "cont \<noteq> []" "ob \<noteq> []"
  shows "truthy (obj_path (TrivialKeyMasterContext km acc (Some cont) (Some ob)))"
  using assms by (simp add: context_object_level truthy_def join_not_empty)

subsection \<open>Resolving the key id and handling requests\<close>

lemma b64decode_Nil: "b64decode [] = Some []"
  by (simp add: b64decode_def)

lemma split_path_Nil: "split_path [] 3 3 = None"
  by (simp add: split_path_def numeral_3_eq_3)

lemma key_id_paths_resolved:
  assumes hs: "response_headers self = Some hs"
    and tok: "response_header_value hs (pfx @ ''crypto-id'') = Some tok"
    and dec: "b64decode tok = Some p"
    and par: "split_path p 3 3 = Some [Some a, Some c, Some ob]"
  shows "key_id_paths pfx self = Inr (''/'' @ a @ ''/'' @ c, ''/'' @ a @ ''/'' @ c @ ''/'' @ ob)"
    and "p = ''/'' @ a @ ''/'' @ c @ ''/'' @ ob"
proof -
  from split_path_3_3_D [OF par] have seg: "a \<noteq> []" "CHR ''/'' \<notin> set a" "CHR ''/'' \<notin> set c"
    and p: "p = ''/'' @ a @ ''/'' @ c @ ''/'' @ ob"
    by auto
  show "p = ''/'' @ a @ ''/'' @ c @ ''/'' @ ob" by (rule p)
  have "tok \<noteq> []"
    using dec p by (auto simp: b64decode_Nil)
  then have "key_id_paths pfx self = Inr (os_path_join ''/'' [a, c], p)"
    using hs tok dec par by (simp add: key_id_paths_def)
  then show "key_id_paths pfx self
      = Inr (''/'' @ a @ ''/'' @ c, ''/'' @ a @ ''/'' @ c @ ''/'' @ ob)"
    using join_container_path [OF seg] p by simp
qed

lemma key_id_paths_malformed:
  assumes hs: "response_headers self = Some hs"
    and bad: "case response_header_value hs (pfx @ ''crypto-id'') of
                None \<Rightarrow> True
              | Some tok \<Rightarrow> (case b64decode tok of None \<Rightarrow> True
                             | Some p \<Rightarrow> split_path p 3 3 = None)"
  shows "key_id_paths pfx self = Inl ValueError"
  using assms by (auto simp: key_id_paths_def split: option.splits)

lemma key_id_paths_cases:
  assumes "response_headers self = Some hs"
  shows "key_id_paths pfx self = Inl ValueError \<or> (\<exists>cp op. key_id_paths pfx self = Inr (cp, op))"
  using assms by (auto simp: key_id_paths_def split: option.splits list.splits)

lemma call_get_or_head:
  assumes m: "req_method env = ''GET'' \<or> req_method env = ''HEAD''"
    and sp: "split_path (path_info env) 2 4 = Some [ver, Some acc, cont, ob]"
  shows "call km pfx inh env =
     (case handle_get_or_head pfx (TrivialKeyMasterContext km acc cont ob) env of
        Inr r \<Rightarrow> Handled r
      | Inl (HTTPUnprocessableEntity msg) \<Rightarrow> Error_response (HTTPUnprocessableEntity msg)
      | Inl e \<Rightarrow> Raised e)"
  using m sp
  by (auto simp: call_def hasattr_def class_attributes_def call_method_def GET_def HEAD_def)

lemma call_post_or_put:
  assumes m: "req_method env = ''POST''"
    and sp: "split_path (path_info env) 2 4 = Some [ver, Some acc, cont, ob]"
  shows "call km pfx inh env =
     (case handle_post_or_put (TrivialKeyMasterContext km acc cont ob) env of
        Inr r \<Rightarrow> Handled r
      | Inl (HTTPUnprocessableEntity msg) \<Rightarrow> Error_response (HTTPUnprocessableEntity msg)
      | Inl e \<Rightarrow> Raised e)"
  using m sp
  by (auto simp: call_def hasattr_def class_attributes_def call_method_def POST_def)

lemma call_PUT:
  assumes m: "req_method env = ''PUT''"
    and sp: "split_path (path_info env) 2 4 = Some [ver, Some acc, cont, ob]"
  shows "call km pfx inh env =
     (case PUT pfx (TrivialKeyMasterContext km acc cont ob) env of
        Inr r \<Rightarrow> Handled r
      | Inl (HTTPUnprocessableEntity msg) \<Rightarrow> Error_response (HTTPUnprocessableEntity msg)
      | Inl e \<Rightarrow> Raised e)"
  using m sp
  by (auto simp: call_def hasattr_def class_attributes_def call_method_def)

lemma keymaster_context [simp]: "keymaster (TrivialKeyMasterContext km acc cont ob) = km"
  by (auto simp: TrivialKeyMasterContext_def init_keys_def Let_def split: option.splits)

lemma response_headers_context [simp]:
  "response_headers (TrivialKeyMasterContext km acc cont ob) = None"
  by (auto simp: TrivialKeyMasterContext_def init_keys_def Let_def split: option.splits)

lemma handle_get_or_head_resolved:
  assumes op: "truthy (obj_path self)"
    and ap: "app (keymaster self) req = (resp, env1)"
    and tok: "response_header_value (resp_headers resp) (pfx @ ''crypto-id'') = Some tok"
    and dec: "b64decode tok = Some p"
    and par: "split_path p 3 3 = Some [Some a, Some c, Some ob]"
  shows "handle_get_or_head pfx self req =
     Inr \<lparr>res_status = Some (resp_status resp), res_headers = Some (resp_headers resp),
          res_body = resp_body resp,
          res_environ =
            (if \<not> crypto_override env1
             then env1\<lparr>fetch_crypto_keys_env := Some ((keys self)
                    (''container'' \<mapsto> create_key (keymaster self) (''/'' @ a @ ''/'' @ c),
                     ''object'' \<mapsto> create_key (keymaster self) (''/'' @ a @ ''/'' @ c @ ''/'' @ ob)))\<rparr>
             else env1),
          res_context = self\<lparr>response_status := Some (resp_status resp),
                             response_headers := Some (resp_headers resp),
                             keys := (keys self)
                    (''container'' \<mapsto> create_key (keymaster self) (''/'' @ a @ ''/'' @ c),
                     ''object'' \<mapsto> create_key (keymaster self) (''/'' @ a @ ''/'' @ c @ ''/'' @ ob))\<rparr>,
          res_forwarded = req\<rparr>"
proof -
  let ?self1 = "self\<lparr>response_status := Some (resp_status resp),
                      response_headers := Some (resp_headers resp)\<rparr>"
  have ac: "app_call self req = (?self1, resp_body resp, env1)"
    using ap by (simp add: app_call_def)
  have "response_headers ?self1 = Some (resp_headers resp)" by simp
  from key_id_paths_resolved(1) [OF this tok dec par]
  have k: "key_id_paths pfx ?self1 = Inr (''/'' @ a @ ''/'' @ c, ''/'' @ a @ ''/'' @ c @ ''/'' @ ob)" .
  show ?thesis
    using op by (simp add: handle_get_or_head_def ac provide_keys_get_or_head_def k
        fetch_crypto_keys_def)
qed

lemma handle_get_or_head_malformed:
  assumes op: "truthy (obj_path self)"
    and ap: "app (keymaster self) req = (resp, env1)"
    and bad: "case response_header_value (resp_headers resp) (pfx @ ''crypto-id'') of
                None \<Rightarrow> True
              | Some tok \<Rightarrow> (case b64decode tok of None \<Rightarrow> True
                             | Some p \<Rightarrow> split_path p 3 3 = None)"
  shows "handle_get_or_head pfx self req =
     Inr \<lparr>res_status = Some (resp_status resp), res_headers = Some (resp_headers resp),
          res_body = resp_body resp,
          res_environ = env1\<lparr>crypto_override := True\<rparr>,
          res_context = self\<lparr>response_status := Some (resp_status resp),
                             response_headers := Some (resp_headers resp)\<rparr>,
          res_forwarded = req\<rparr>"
proof -
  let ?self1 = "self\<lparr>response_status := Some (resp_status resp),
                      response_headers := Some (resp_headers resp)\<rparr>"
  have ac: "app_call self req = (?self1, resp_body resp, env1)"
    using ap by (simp add: app_call_def)
  have "response_headers ?self1 = Some (resp_headers resp)" by simp
  from key_id_paths_malformed [OF this bad]
  have k: "key_id_paths pfx ?self1 = Inl ValueError" .
  show ?thesis
    using op by (simp add: handle_get_or_head_def ac provide_keys_get_or_head_def k)
qed

lemma keys_replaced:
  "[''container'' \<mapsto> k1, ''object'' \<mapsto> k2](''container'' \<mapsto> k3, ''object'' \<mapsto> k4)
   = [''container'' \<mapsto> k3, ''object'' \<mapsto> k4]"
  by (auto simp: fun_eq_iff)

subsection \<open>Every handler answers\<close>

lemma provide_keys_get_or_head_Inr:
  assumes "response_headers self = Some hs"
  shows "\<exists>self' req'. provide_keys_get_or_head pfx self req = Inr (self', req')
           \<and> response_status self' = response_status self
           \<and> response_headers self' = response_headers self"
proof (cases "truthy (obj_path self)")
  case False
  then show ?thesis by (simp add: provide_keys_get_or_head_def)
next
  case True
  from key_id_paths_cases [OF assms, of pfx] show ?thesis
  proof
    assume "key_id_paths pfx self = Inl ValueError"
    with True show ?thesis by (simp add: provide_keys_get_or_head_def)
  next
    assume "\<exists>cp op. key_id_paths pfx self = Inr (cp, op)"
    then obtain cp op where "key_id_paths pfx self = Inr (cp, op)" by blast
    with True show ?thesis by (simp add: provide_keys_get_or_head_def)
  qed
qed

lemma provide_keys_get_or_head_callback:
  assumes "provide_keys_get_or_head pfx self req = Inr (self', req')"
  shows "if crypto_override req'
         then fetch_crypto_keys_env req' = fetch_crypto_keys_env req
         else fetch_crypto_keys_env req' = Some (fetch_crypto_keys self')"
  using assms
  by (auto simp: provide_keys_get_or_head_def split: if_splits sum.splits error.splits prod.splits)

lemma handle_get_or_head_response:
  assumes ap: "app (keymaster self) req = (resp, env1)"
  shows "\<exists>r. handle_get_or_head pfx self req = Inr r
           \<and> res_status r = Some (resp_status resp) \<and> res_headers r = Some (resp_headers resp)
           \<and> res_body r = resp_body resp \<and> res_forwarded r = req
           \<and> (if crypto_override (res_environ r)
                then fetch_crypto_keys_env (res_environ r) = fetch_crypto_keys_env env1
                else fetch_crypto_keys_env (res_environ r)
                     = Some (fetch_crypto_keys (res_context r)))"
proof -
  let ?self1 = "self\<lparr>response_status := Some (resp_status resp),
                      response_headers := Some (resp_headers resp)\<rparr>"
  have ac: "app_call self req = (?self1, resp_body resp, env1)"
    using ap by (simp add: app_call_def)
  have "response_headers ?self1 = Some (resp_headers resp)" by simp
  from provide_keys_get_or_head_Inr [OF this, of pfx env1]
  obtain self' req' where p: "provide_keys_get_or_head pfx ?self1 env1 = Inr (self', req')"
    and st: "response_status self' = Some (resp_status resp)"
    and hd: "response_headers self' = Some (resp_headers resp)"
    by auto
  from provide_keys_get_or_head_callback [OF p] show ?thesis
    by (simp add: handle_get_or_head_def ac p st hd)
qed

lemma handle_get_or_head_not_object:
  assumes op: "\<not> truthy (obj_path self)"
    and ap: "app (keymaster self) req = (resp, env1)"
  shows "handle_get_or_head pfx self req =
     Inr \<lparr>res_status = Some (resp_status resp), res_headers = Some (resp_headers resp),
          res_body = resp_body resp,
          res_environ = (if \<not> crypto_override env1
                         then env1\<lparr>fetch_crypto_keys_env := Some (keys self)\<rparr> else env1),
          res_context = self\<lparr>response_status := Some (resp_status resp),
                             response_headers := Some (resp_headers resp)\<rparr>,
          res_forwarded = req\<rparr>"
  using op ap
  by (simp add: handle_get_or_head_def app_call_def provide_keys_get_or_head_def
      fetch_crypto_keys_def)

lemma handle_post_or_put_response:
  assumes ap: "app (keymaster self) (req\<lparr>fetch_crypto_keys_env := Some (keys self)\<rparr>) = (resp, env1)"
  shows "handle_post_or_put self req =
     Inr \<lparr>res_status = Some (resp_status resp), res_headers = Some (resp_headers resp),
          res_body = resp_body resp, res_environ = env1,
          res_context = self\<lparr>response_status := Some (resp_status resp),
                             response_headers := Some (resp_headers resp)\<rparr>,
          res_forwarded = req\<lparr>fetch_crypto_keys_env := Some (keys self)\<rparr>\<rparr>"
  using ap by (simp add: handle_post_or_put_def app_call_def fetch_crypto_keys_def)

lemma handle_post_or_put_Inr:
  "\<exists>r. handle_post_or_put self req = Inr r
       \<and> res_forwarded r = req\<lparr>fetch_crypto_keys_env := Some (keys self)\<rparr>
       \<and> fetch_crypto_keys (res_context r) = keys self"
proof -
  obtain resp env1 where
    "app (keymaster self) (req\<lparr>fetch_crypto_keys_env := Some (keys self)\<rparr>) = (resp, env1)"
    by (metis surj_pair)
  from handle_post_or_put_response [OF this] show ?thesis
    by (simp add: fetch_crypto_keys_def)
qed

lemma PUT_object_level:
  assumes "cont \<noteq> []" "ob \<noteq> []"
  shows "PUT pfx (TrivialKeyMasterContext km acc (Some cont) (Some ob)) req =
     handle_post_or_put (TrivialKeyMasterContext km acc (Some cont) (Some ob))
       (req\<lparr>req_headers := (req_headers req)(pfx @ ''crypto-id'' \<mapsto>
           b64encode (os_path_join (os_path_join (os_path_join ''/'' [acc]) [cont]) [ob]))\<rparr>)"
  using assms by (simp add: PUT_def context_object_level join_not_empty)

lemma PUT_not_object_level:
  assumes "\<not> truthy cont \<or> \<not> truthy ob"
  shows "PUT pfx (TrivialKeyMasterContext km acc cont ob) req =
     handle_post_or_put (TrivialKeyMasterContext km acc cont ob) req"
proof (cases "truthy cont")
  case False
  then show ?thesis by (simp add: PUT_def context_account_level)
next
  case True
  then obtain c where c: "cont = Some c" "c \<noteq> []"
    by (auto simp: truthy_def split: option.splits)
  with True assms have "\<not> truthy ob" by simp
  with c show ?thesis by (simp add: PUT_def context_container_level)
qed

lemma call_method_no_http_error:
  "call_method pfx self name req \<noteq> Inl (HTTPUnprocessableEntity msg)"
proof -
  obtain resp env1 where ap: "app (keymaster self) req = (resp, env1)"
    by (metis surj_pair)
  from handle_get_or_head_response [OF ap, of pfx]
  have g: "handle_get_or_head pfx self req \<noteq> Inl (HTTPUnprocessableEntity msg)" by auto
  have p: "handle_post_or_put self req' \<noteq> Inl (HTTPUnprocessableEntity msg)" for req'
    using handle_post_or_put_Inr [of self req'] by auto
  show ?thesis
    using g p by (simp add: call_method_def PUT_def POST_def GET_def HEAD_def)
qed

lemma call_not_error_response: "call km pfx inh env \<noteq> Error_response e"
proof -
  have "(case call_method pfx self name req of
           Inr r \<Rightarrow> Handled r
         | Inl (HTTPUnprocessableEntity msg) \<Rightarrow> Error_response (HTTPUnprocessableEntity msg)
         | Inl e' \<Rightarrow> Raised e') \<noteq> Error_response e" for self name req
    using call_method_no_http_error [of pfx self name req]
    by (auto split: sum.splits error.splits)
  then show ?thesis
    by (auto simp: call_def Let_def split: option.splits list.splits if_splits)
qed

lemma error_if_need_keys_raises:
  assumes "response_headers self = Some hs"
    and "list_ex (\<lambda>(h, v). startswith (lower (strip_sys_meta_prefix (server_type self) h))
                              ''crypto-meta-'')
           (filter (\<lambda>(h, v). is_sys_meta (server_type self) h) hs)"
  shows "error_if_need_keys self req
         = Inl (HTTPUnprocessableEntity (''Cannot get necessary keys for path '' @ path_info req))"
  using assms by (simp add: error_if_need_keys_def)

lemma response_header_value_same: "response_header_value [(name, v)] name = Some v"
  by simp

lemma join_object_path:
  assumes "a \<noteq> []" "CHR ''/'' \<notin> set a" "c \<noteq> []" "CHR ''/'' \<notin> set c" "\<not> startswith ob ''/''"
  shows "os_path_join (os_path_join (os_path_join ''/'' [a]) [c]) [ob]
         = ''/'' @ a @ ''/'' @ c @ ''/'' @ ob"
proof -
  have cp: "os_path_join (os_path_join ''/'' [a]) [c] = ''/'' @ a @ ''/'' @ c"
    using join_container_path [OF assms(1,2,4)] by (simp add: join_two)
  have "last (''/'' @ a @ ''/'' @ c) \<noteq> CHR ''/''"
    using assms(3,4) by (metis append_assoc last_appendR last_in_set)
  then have "os_path_join (''/'' @ a @ ''/'' @ c) [ob] = (''/'' @ a @ ''/'' @ c) @ ''/'' @ ob"
    using assms(5) by (intro join_below) simp_all
  with cp show ?thesis by simp
qed

subsection \<open>The example collaborators\<close>

lemma example_split_object:
  "split_path (path_info (example_request m ''/v1/a/c/o'')) 2 4
   = Some [Some ''v1'', Some ''a'', Some ''c'', Some ''o'']"
  unfolding example_request_def request.simps by code_simp

lemma example_split_account:
  "split_path (path_info (example_request m ''/v1/a'')) 2 4 = Some [Some ''v1'', Some ''a'', None, None]"
  unfolding example_request_def request.simps by code_simp

lemma example_app_answer:
  "app (TrivialKeyMaster (example_app hs) conf) env
   = (\<lparr>resp_status = ''200 OK'', resp_headers = hs, resp_body = ''data''\<rparr>, env)"
  by (simp add: TrivialKeyMaster_def example_app_def)

lemma example_get: "req_method (example_request ''GET'' p) = ''GET''
                    \<or> req_method (example_request ''GET'' p) = ''HEAD''"
  by (simp add: example_request_def)

lemma crypto_meta_headers_need_keys:
  "list_ex (\<lambda>(h, v). startswith (lower (strip_sys_meta_prefix ''object'' h)) ''crypto-meta-'')
     (filter (\<lambda>(h, v). is_sys_meta ''object'' h) [(''X-Object-Sysmeta-Crypto-Meta-Etag'', ''m'')])"
  by code_simp

lemma example_crypto_meta_context:
  "response_headers
     ((TrivialKeyMasterContext km ''a'' (Some ''c'') (Some ''o''))
        \<lparr>response_status := s,
         response_headers := Some [(''X-Object-Sysmeta-Crypto-Meta-Etag'', ''m'')]\<rparr>)
   = Some [(''X-Object-Sysmeta-Crypto-Meta-Etag'', ''m'')]
   \<and> list_ex (\<lambda>(h, v). startswith (lower (strip_sys_meta_prefix (server_type
          ((TrivialKeyMasterContext km ''a'' (Some ''c'') (Some ''o''))
            \<lparr>response_status := s,
             response_headers := Some [(''X-Object-Sysmeta-Crypto-Meta-Etag'', ''m'')]\<rparr>)) h))
          ''crypto-meta-'')
       (filter (\<lambda>(h, v). is_sys_meta (server_type
          ((TrivialKeyMasterContext km ''a'' (Some ''c'') (Some ''o''))
            \<lparr>response_status := s,
             response_headers := Some [(''X-Object-Sysmeta-Crypto-Meta-Etag'', ''m'')]\<rparr>)) h)
          [(''X-Object-Sysmeta-Crypto-Meta-Etag'', ''m'')])"
proof -
  have lvl: "''c'' \<noteq> []" "''o'' \<noteq> []" by simp_all
  have st: "server_type
          ((TrivialKeyMasterContext km ''a'' (Some ''c'') (Some ''o''))
            \<lparr>response_status := s,
             response_headers := Some [(''X-Object-Sysmeta-Crypto-Meta-Etag'', ''m'')]\<rparr>)
        = ''object''"
    by (simp add: context_object_level [OF lvl])
  show ?thesis
    unfolding st using crypto_meta_headers_need_keys by simp
qed


section \<open>The claims\<close>

subsection \<open>Key derivation\<close>

lemma length_be_bytes: "length (be_bytes n v) = n"
  by (simp add: be_bytes_def)

lemma length_state_bytes: "length (state_bytes s) = 32"
proof -
  obtain a b c d e f g h where "s = (a, b, c, d, e, f, g, h)"
    by (metis surj_pair)
  then show ?thesis
    by (simp add: length_be_bytes)
qed

lemma length_sha256: "length (sha256 m) = 32"
  by (simp add: sha256_def length_state_bytes)

lemma length_hmac_sha256: "length (hmac_sha256 key msg) = 32"
  by (simp add: hmac_sha256_def Let_def length_sha256)

text \<open>
  C4. For every root key \<open>R\<close> and every path string \<open>P\<close>, \<open>create_key\<close> of a keymaster whose
  root key is \<open>R\<close> returns the HMAC-SHA256 digest of \<open>P\<close> under \<open>R\<close>; the digest is exactly
  32 bytes long; and the result depends on \<open>R\<close> and \<open>P\<close> alone: two keymasters with the same
  root key return the same bytes for the same path, whatever application they wrap.
\<close>

theorem create_key_hmac_sha256:
  "create_key \<lparr>app = a, root_key = R\<rparr> P = hmac_sha256 R P
   \<and> length (create_key \<lparr>app = a, root_key = R\<rparr> P) = 32
   \<and> create_key \<lparr>app = a, root_key = R\<rparr> P = create_key \<lparr>app = a', root_key = R\<rparr> P"
  by (simp add: create_key_def length_hmac_sha256)

text \<open>
  C10. Whatever configuration the constructor (or \<open>filter_factory\<close>) is given, the root key
  is the bytes of \<open>secret\<close>, and two instances built from any two configurations derive the
  same key for every path.
\<close>

theorem root_key_ignores_conf:
  "root_key (TrivialKeyMaster wrapped conf) = ''secret''
   \<and> root_key (filter_factory global_conf local_conf wrapped) = ''secret''
   \<and> create_key (TrivialKeyMaster wrapped1 conf1) P = create_key (TrivialKeyMaster wrapped2 conf2) P
   \<and> create_key (filter_factory g1 l1 wrapped1) P = create_key (filter_factory g2 l2 wrapped2) P"
  by (simp add: TrivialKeyMaster_def filter_factory_def create_key_def)

subsection \<open>The default KeySet of a request\<close>

text \<open>
  C5 says that at initialization an object-level request always gets the entry \<open>object\<close>
  \<open>\<mapsto>\<close> \<open>create_key\<close> of \<open>/account/container/object\<close>. \<open>_init_keys\<close> builds that
  path with \<open>os.path.join\<close>, which drops everything before a component that begins with the
  separator. The request path \<open>/v1/a/c//o\<close> names the object \<open>/o\<close> in container \<open>c\<close> of
  account \<open>a\<close>; its context has the object path \<open>/o\<close>, and the entry \<open>object\<close> is the key
  of \<open>/o\<close>, not of \<open>/a/c//o\<close>. The module's docstring states that the key of a path is the
  HMAC of the root key and the path itself.
\<close>

theorem object_name_with_leading_slash_loses_its_path:
  "split_path ''/v1/a/c//o'' 2 4 = Some [Some ''v1'', Some ''a'', Some ''c'', Some ''/o'']
   \<and> obj_path (TrivialKeyMasterContext km ''a'' (Some ''c'') (Some ''/o'')) = Some ''/o''
   \<and> keys (TrivialKeyMasterContext km ''a'' (Some ''c'') (Some ''/o''))
       = [''container'' \<mapsto> create_key km ''/a/c'', ''object'' \<mapsto> create_key km ''/o'']"
proof -
  have 1: "split_path ''/v1/a/c//o'' 2 4 = Some [Some ''v1'', Some ''a'', Some ''c'', Some ''/o'']"
    by code_simp
  have c: "os_path_join (os_path_join ''/'' [''a'']) [''c''] = ''/a/c''"
    by code_simp
  have o: "os_path_join ''/a/c'' [''/o''] = ''/o''"
    by code_simp
  have lvl: "''c'' \<noteq> []" "''/o'' \<noteq> []" by simp_all
  show ?thesis
    unfolding context_object_level [OF lvl] c o using 1 by simp
qed

theorem object_name_with_leading_slash_loses_its_path_witness:
  "obj_path (TrivialKeyMasterContext (TrivialKeyMaster (example_app []) Map.empty)
      ''a'' (Some ''c'') (Some ''/o'')) = Some ''/o''"
  using object_name_with_leading_slash_loses_its_path
    [of "TrivialKeyMaster (example_app []) Map.empty"]
  by (rule conjunct1 [OF conjunct2])

text \<open>
  What \<open>_init_keys\<close> does establish, for an account segment as the dispatcher passes it
  (not empty, without separator): no entry at account level; \<open>container\<close> \<open>\<mapsto>\<close>
  \<open>create_key\<close> of \<open>/account/container\<close> when a container is present; in addition
  \<open>object\<close> \<open>\<mapsto>\<close> \<open>create_key\<close> of \<open>/account/container/object\<close> when an object is
  present whose name does not begin with the separator; and never an entry under another name.
\<close>

theorem default_keys_by_level:
  assumes "acc \<noteq> []" "CHR ''/'' \<notin> set acc"
  shows "(\<not> truthy cont \<longrightarrow> keys (TrivialKeyMasterContext km acc cont ob) = Map.empty)
       \<and> (c \<noteq> [] \<and> CHR ''/'' \<notin> set c \<and> \<not> truthy ob \<longrightarrow>
            keys (TrivialKeyMasterContext km acc (Some c) ob)
            = [''container'' \<mapsto> create_key km (''/'' @ acc @ ''/'' @ c)])
       \<and> (c \<noteq> [] \<and> CHR ''/'' \<notin> set c \<and> ob' \<noteq> [] \<and> \<not> startswith ob' ''/'' \<longrightarrow>
            keys (TrivialKeyMasterContext km acc (Some c) (Some ob'))
            = [''container'' \<mapsto> create_key km (''/'' @ acc @ ''/'' @ c),
               ''object'' \<mapsto> create_key km (''/'' @ acc @ ''/'' @ c @ ''/'' @ ob')])
       \<and> dom (keys (TrivialKeyMasterContext km acc cont ob)) \<subseteq> {''container'', ''object''}"
proof (intro conjI impI)
  assume "\<not> truthy cont"
  then show "keys (TrivialKeyMasterContext km acc cont ob) = Map.empty"
    by (simp add: context_account_level)
next
  assume a: "c \<noteq> [] \<and> CHR ''/'' \<notin> set c \<and> \<not> truthy ob"
  then have "os_path_join (os_path_join ''/'' [acc]) [c] = ''/'' @ acc @ ''/'' @ c"
    using join_container_path [OF assms, of c] by (simp add: join_two)
  with a show "keys (TrivialKeyMasterContext km acc (Some c) ob)
      = [''container'' \<mapsto> create_key km (''/'' @ acc @ ''/'' @ c)]"
    by (simp add: context_container_level)
next
  assume a: "c \<noteq> [] \<and> CHR ''/'' \<notin> set c \<and> ob' \<noteq> [] \<and> \<not> startswith ob' ''/''"
  then have cp: "os_path_join (os_path_join ''/'' [acc]) [c] = ''/'' @ acc @ ''/'' @ c"
    using join_container_path [OF assms, of c] by (simp add: join_two)
  from a have "os_path_join (os_path_join (os_path_join ''/'' [acc]) [c]) [ob']
      = ''/'' @ acc @ ''/'' @ c @ ''/'' @ ob'"
    using join_object_path [OF assms, of c ob'] by simp
  with a cp show "keys (TrivialKeyMasterContext km acc (Some c) (Some ob'))
      = [''container'' \<mapsto> create_key km (''/'' @ acc @ ''/'' @ c),
         ''object'' \<mapsto> create_key km (''/'' @ acc @ ''/'' @ c @ ''/'' @ ob')]"
    by (simp add: context_object_level)
next
  show "dom (keys (TrivialKeyMasterContext km acc cont ob)) \<subseteq> {''container'', ''object''}"
    by (auto simp: TrivialKeyMasterContext_def init_keys_def Let_def
        split: option.splits if_splits)
qed

theorem default_keys_by_level_witness:
  "keys (TrivialKeyMasterContext (TrivialKeyMaster (example_app []) Map.empty) ''a'' None None)
     = Map.empty
   \<and> keys (TrivialKeyMasterContext (TrivialKeyMaster (example_app []) Map.empty)
        ''a'' (Some ''c'') None)
     = [''container'' \<mapsto> create_key (TrivialKeyMaster (example_app []) Map.empty) ''/a/c'']
   \<and> keys (TrivialKeyMasterContext (TrivialKeyMaster (example_app []) Map.empty)
        ''a'' (Some ''c'') (Some ''o1''))
     = [''container'' \<mapsto> create_key (TrivialKeyMaster (example_app []) Map.empty) ''/a/c'',
        ''object'' \<mapsto> create_key (TrivialKeyMaster (example_app []) Map.empty) ''/a/c/o1'']"
proof -
  let ?km = "TrivialKeyMaster (example_app []) Map.empty"
  have h: "''a'' \<noteq> []" "CHR ''/'' \<notin> set ''a''" by simp_all
  have n: "\<not> truthy None" by (simp add: truthy_def)
  have c: "''c'' \<noteq> [] \<and> CHR ''/'' \<notin> set ''c'' \<and> \<not> truthy None"
    by (simp add: truthy_def)
  have o: "''c'' \<noteq> [] \<and> CHR ''/'' \<notin> set ''c'' \<and> ''o1'' \<noteq> [] \<and> \<not> startswith ''o1'' ''/''"
    by (simp add: startswith_def)
  from default_keys_by_level [OF h, of None ?km None "''c''" "''o1''"] n c o
  show ?thesis by simp
qed

subsection \<open>Writing an object: the key id is stored\<close>

text \<open>
  C7 says that an object-level PUT adds the header \<open>crypto-id\<close> with the base64 encoding of
  the object's own full path \<open>/account/container/object\<close>. For the PUT of \<open>/v1/a/c//o\<close> the
  header that reaches the wrapped application is the encoding of \<open>/o\<close>, \<open>L28=\<close>, where the
  encoding of the full path \<open>/a/c//o\<close> is \<open>L2EvYy8vbw==\<close>: the same \<open>os.path.join\<close> as
  in C5. The comment in \<open>PUT\<close> gives the purpose of the header: to find the key of the
  object again after a copy.
\<close>

theorem put_of_leading_slash_object_stores_short_token:
  "(\<exists>r. call km pfx inh (example_request ''PUT'' ''/v1/a/c//o'') = Handled r
        \<and> req_headers (res_forwarded r) (pfx @ ''crypto-id'') = Some (b64encode ''/o''))
   \<and> b64encode ''/o'' = ''L28='' \<and> b64encode ''/a/c//o'' = ''L2EvYy8vbw==''"
proof -
  let ?env = "example_request ''PUT'' ''/v1/a/c//o''"
  let ?self = "TrivialKeyMasterContext km ''a'' (Some ''c'') (Some ''/o'')"
  have m: "req_method ?env = ''PUT''" by (simp add: example_request_def)
  have sp: "split_path (path_info ?env) 2 4 = Some [Some ''v1'', Some ''a'', Some ''c'', Some ''/o'']"
    unfolding example_request_def request.simps by code_simp
  have lvl: "''c'' \<noteq> []" "''/o'' \<noteq> []" by simp_all
  have o: "os_path_join (os_path_join (os_path_join ''/'' [''a'']) [''c'']) [''/o''] = ''/o''"
    by code_simp
  let ?env' = "?env\<lparr>req_headers := (req_headers ?env)(pfx @ ''crypto-id'' \<mapsto> b64encode ''/o'')\<rparr>"
  from handle_post_or_put_Inr [of ?self ?env']
  have "\<exists>r. call km pfx inh ?env = Handled r
          \<and> req_headers (res_forwarded r) (pfx @ ''crypto-id'') = Some (b64encode ''/o'')"
    unfolding call_PUT [OF m sp] PUT_object_level [OF lvl] o by auto
  moreover have "b64encode ''/o'' = ''L28=''"
    by (simp add: b64encode_def b64_char_def char_of_eq_iff)
  moreover have "b64encode ''/a/c//o'' = ''L2EvYy8vbw==''"
    by (simp add: b64encode_def b64_char_def char_of_eq_iff)
  ultimately show ?thesis by simp
qed

theorem put_of_leading_slash_object_stores_short_token_witness:
  "\<exists>r. call (TrivialKeyMaster (example_app []) Map.empty) ''x-object-sysmeta-'' (\<lambda>name. False)
          (example_request ''PUT'' ''/v1/a/c//o'') = Handled r
      \<and> req_headers (res_forwarded r) ''x-object-sysmeta-crypto-id'' = Some ''L28=''"
  using put_of_leading_slash_object_stores_short_token
    [of "TrivialKeyMaster (example_app []) Map.empty" "''x-object-sysmeta-''" "\<lambda>name. False"]
  by auto

text \<open>
  What \<open>PUT\<close> and \<open>POST\<close> do establish: an object-level PUT whose object name does not
  begin with the separator forwards the request with the one header \<open>crypto-id\<close> added, its
  value the base64 encoding of \<open>/account/container/object\<close>; a PUT below object level and
  every POST forward the request headers unchanged.
\<close>

theorem put_stores_key_id:
  "(acc \<noteq> [] \<and> CHR ''/'' \<notin> set acc \<and> c \<noteq> [] \<and> CHR ''/'' \<notin> set c \<and> ob' \<noteq> []
      \<and> \<not> startswith ob' ''/'' \<longrightarrow>
      (\<exists>r. PUT pfx (TrivialKeyMasterContext km acc (Some c) (Some ob')) req = Inr r
          \<and> req_headers (res_forwarded r)
             = (req_headers req)(pfx @ ''crypto-id'' \<mapsto>
                  b64encode (''/'' @ acc @ ''/'' @ c @ ''/'' @ ob'))))
   \<and> (\<not> truthy cont \<or> \<not> truthy ob \<longrightarrow>
      (\<exists>r. PUT pfx (TrivialKeyMasterContext km acc cont ob) req = Inr r
          \<and> req_headers (res_forwarded r) = req_headers req))
   \<and> (\<exists>r. POST self req = Inr r \<and> req_headers (res_forwarded r) = req_headers req)"
proof (intro conjI impI)
  assume a: "acc \<noteq> [] \<and> CHR ''/'' \<notin> set acc \<and> c \<noteq> [] \<and> CHR ''/'' \<notin> set c \<and> ob' \<noteq> []
      \<and> \<not> startswith ob' ''/''"
  then have p: "os_path_join (os_path_join (os_path_join ''/'' [acc]) [c]) [ob']
      = ''/'' @ acc @ ''/'' @ c @ ''/'' @ ob'"
    by (intro join_object_path) simp_all
  from a have lvl: "c \<noteq> []" "ob' \<noteq> []" by simp_all
  let ?self = "TrivialKeyMasterContext km acc (Some c) (Some ob')"
  let ?req = "req\<lparr>req_headers := (req_headers req)(pfx @ ''crypto-id'' \<mapsto>
           b64encode (''/'' @ acc @ ''/'' @ c @ ''/'' @ ob'))\<rparr>"
  from handle_post_or_put_Inr [of ?self ?req]
  show "\<exists>r. PUT pfx ?self req = Inr r
          \<and> req_headers (res_forwarded r)
             = (req_headers req)(pfx @ ''crypto-id'' \<mapsto>
                  b64encode (''/'' @ acc @ ''/'' @ c @ ''/'' @ ob'))"
    unfolding PUT_object_level [OF lvl] p by auto
next
  assume "\<not> truthy cont \<or> \<not> truthy ob"
  from PUT_not_object_level [OF this]
    handle_post_or_put_Inr [of "TrivialKeyMasterContext km acc cont ob" req]
  show "\<exists>r. PUT pfx (TrivialKeyMasterContext km acc cont ob) req = Inr r
          \<and> req_headers (res_forwarded r) = req_headers req"
    by auto
next
  from handle_post_or_put_Inr [of self req]
  show "\<exists>r. POST self req = Inr r \<and> req_headers (res_forwarded r) = req_headers req"
    by (auto simp: POST_def)
qed

theorem put_stores_key_id_witness:
  "(\<exists>r. PUT ''x-object-sysmeta-''
          (TrivialKeyMasterContext (TrivialKeyMaster (example_app []) Map.empty)
             ''a'' (Some ''c'') (Some ''o1''))
          (example_request ''PUT'' ''/v1/a/c/o1'') = Inr r
       \<and> req_headers (res_forwarded r) ''x-object-sysmeta-crypto-id'' = Some (b64encode ''/a/c/o1''))
   \<and> (\<exists>r. PUT ''x-object-sysmeta-''
          (TrivialKeyMasterContext (TrivialKeyMaster (example_app []) Map.empty)
             ''a'' (Some ''c'') None)
          (example_request ''PUT'' ''/v1/a/c'') = Inr r
       \<and> req_headers (res_forwarded r) ''x-object-sysmeta-crypto-id'' = None)"
proof -
  let ?km = "TrivialKeyMaster (example_app []) Map.empty"
  have o: "''a'' \<noteq> [] \<and> CHR ''/'' \<notin> set ''a'' \<and> ''c'' \<noteq> [] \<and> CHR ''/'' \<notin> set ''c'' \<and> ''o1'' \<noteq> []
      \<and> \<not> startswith ''o1'' ''/''"
    by (simp add: startswith_def)
  have n: "\<not> truthy (Some ''c'') \<or> \<not> truthy None" by (simp add: truthy_def)
  have e: "req_headers (example_request m p) = Map.empty" for m p
    by (simp add: example_request_def)
  from put_stores_key_id [where acc = "''a''" and c = "''c''" and ob' = "''o1''"
      and pfx = "''x-object-sysmeta-''" and km = ?km
      and req = "example_request ''PUT'' ''/v1/a/c/o1''", THEN conjunct1, THEN mp, OF o]
  obtain r1 where "PUT ''x-object-sysmeta-''
        (TrivialKeyMasterContext ?km ''a'' (Some ''c'') (Some ''o1''))
        (example_request ''PUT'' ''/v1/a/c/o1'') = Inr r1"
    and "req_headers (res_forwarded r1)
         = (req_headers (example_request ''PUT'' ''/v1/a/c/o1''))
             (''x-object-sysmeta-'' @ ''crypto-id'' \<mapsto> b64encode (''/'' @ ''a'' @ ''/'' @ ''c'' @ ''/'' @ ''o1''))"
    by blast
  then have 1: "\<exists>r. PUT ''x-object-sysmeta-'' (TrivialKeyMasterContext ?km ''a'' (Some ''c'') (Some ''o1''))
          (example_request ''PUT'' ''/v1/a/c/o1'') = Inr r
       \<and> req_headers (res_forwarded r) ''x-object-sysmeta-crypto-id'' = Some (b64encode ''/a/c/o1'')"
    by (simp add: e)
  from put_stores_key_id [where cont = "Some ''c''" and ob = None and pfx = "''x-object-sysmeta-''"
      and km = ?km and acc = "''a''" and req = "example_request ''PUT'' ''/v1/a/c''",
      THEN conjunct2, THEN conjunct1, THEN mp, OF n]
  have 2: "\<exists>r. PUT ''x-object-sysmeta-'' (TrivialKeyMasterContext ?km ''a'' (Some ''c'') None)
          (example_request ''PUT'' ''/v1/a/c'') = Inr r
       \<and> req_headers (res_forwarded r) ''x-object-sysmeta-crypto-id'' = None"
    by (auto simp: e)
  from 1 2 show ?thesis by (rule conjI)
qed

subsection \<open>Reading an object: the key id decides\<close>

text \<open>
  C1. For every object-level GET or HEAD request whose response carries, under the name of the
  object persisted-sysmeta prefix followed by \<open>crypto-id\<close>, a token that \<open>b64decode\<close>
  accepts and whose decoding \<open>P\<close> parses as three segments \<open>a\<close>, \<open>c\<close>, \<open>ob'\<close> (no
  relation to the request's own \<open>acc\<close>, \<open>cont\<close>, \<open>ob\<close> is assumed), the request is
  handled, \<open>P\<close> is the path \<open>/a/c/ob'\<close>, and the KeySet that \<open>fetch_crypto_keys\<close> returns
  is exactly \<open>container\<close> \<open>\<mapsto>\<close> \<open>create_key\<close> of \<open>/a/c\<close> and \<open>object\<close> \<open>\<mapsto>\<close>
  \<open>create_key\<close> of \<open>P\<close>: the default KeySet of the request's own path is gone. Unless an
  override is already recorded in the environment that the wrapped application leaves behind,
  the callback supplying this KeySet is installed in the environment.
\<close>

theorem resolved_token_supplies_keys_of_its_path:
  assumes m: "req_method env = ''GET'' \<or> req_method env = ''HEAD''"
    and sp: "split_path (path_info env) 2 4 = Some [ver, Some acc, Some cont, Some ob]"
    and lvl: "cont \<noteq> []" "ob \<noteq> []"
    and ap: "app km env = (resp, env1)"
    and tok: "response_header_value (resp_headers resp) (pfx @ ''crypto-id'') = Some tok"
    and dec: "b64decode tok = Some P"
    and par: "split_path P 3 3 = Some [Some a, Some c, Some ob']"
  shows "\<exists>r. call km pfx inh env = Handled r
           \<and> P = ''/'' @ a @ ''/'' @ c @ ''/'' @ ob'
           \<and> fetch_crypto_keys (res_context r)
               = [''container'' \<mapsto> create_key km (''/'' @ a @ ''/'' @ c),
                  ''object'' \<mapsto> create_key km P]
           \<and> (\<not> crypto_override env1 \<longrightarrow>
                fetch_crypto_keys_env (res_environ r) = Some (fetch_crypto_keys (res_context r)))"
proof -
  let ?self = "TrivialKeyMasterContext km acc (Some cont) (Some ob)"
  have op: "truthy (obj_path ?self)"
    using lvl by (rule object_level_obj_path_truthy)
  have ap': "app (keymaster ?self) env = (resp, env1)"
    using ap by simp
  have P: "P = ''/'' @ a @ ''/'' @ c @ ''/'' @ ob'"
    using split_path_3_3_D [OF par] by auto
  have k: "(keys ?self)(''container'' \<mapsto> k3, ''object'' \<mapsto> k4)
           = [''container'' \<mapsto> k3, ''object'' \<mapsto> k4]" for k3 k4
    using lvl by (simp add: context_object_level keys_replaced)
  show ?thesis
    unfolding call_get_or_head [OF m sp] handle_get_or_head_resolved [OF op ap' tok dec par]
    by (simp add: fetch_crypto_keys_def k P)
qed

theorem resolved_token_supplies_keys_of_its_path_witness:
  "\<exists>r. call (TrivialKeyMaster
              (example_app [(''X-Object-Sysmeta-Crypto-Id'', b64encode ''/a/c/o1'')]) Map.empty)
            ''x-object-sysmeta-'' (\<lambda>name. False) (example_request ''GET'' ''/v1/a/c2/o2'')
          = Handled r
        \<and> fetch_crypto_keys (res_context r)
            = [''container'' \<mapsto> create_key (TrivialKeyMaster
                 (example_app [(''X-Object-Sysmeta-Crypto-Id'', b64encode ''/a/c/o1'')]) Map.empty)
                 ''/a/c'',
               ''object'' \<mapsto> create_key (TrivialKeyMaster
                 (example_app [(''X-Object-Sysmeta-Crypto-Id'', b64encode ''/a/c/o1'')]) Map.empty)
                 ''/a/c/o1'']
        \<and> fetch_crypto_keys_env (res_environ r) = Some (fetch_crypto_keys (res_context r))"
proof -
  let ?hs = "[(''X-Object-Sysmeta-Crypto-Id'', b64encode ''/a/c/o1'')]"
  let ?km = "TrivialKeyMaster (example_app ?hs) Map.empty"
  let ?env = "example_request ''GET'' ''/v1/a/c2/o2''"
  let ?resp = "\<lparr>resp_status = ''200 OK'', resp_headers = ?hs, resp_body = ''data''\<rparr>"
  have m: "req_method ?env = ''GET'' \<or> req_method ?env = ''HEAD''"
    by (simp add: example_request_def)
  have sp: "split_path (path_info ?env) 2 4 = Some [Some ''v1'', Some ''a'', Some ''c2'', Some ''o2'']"
    unfolding example_request_def by code_simp
  have lvl: "''c2'' \<noteq> []" "''o2'' \<noteq> []" by simp_all
  have ap: "app ?km ?env = (?resp, ?env)"
    by (simp add: TrivialKeyMaster_def example_app_def)
  have tok: "response_header_value (resp_headers ?resp) (''x-object-sysmeta-'' @ ''crypto-id'')
             = Some (b64encode ''/a/c/o1'')"
    by code_simp
  have dec: "b64decode (b64encode ''/a/c/o1'') = Some ''/a/c/o1''"
    by (rule b64decode_b64encode)
  have par: "split_path ''/a/c/o1'' 3 3 = Some [Some ''a'', Some ''c'', Some ''o1'']"
    by code_simp
  have no: "\<not> crypto_override ?env" by (simp add: example_request_def)
  from resolved_token_supplies_keys_of_its_path [OF m sp lvl ap tok dec par, of "\<lambda>name. False"] no
  show ?thesis by auto
qed

text \<open>
  C2. For every object-level GET or HEAD request whose response has no \<open>crypto-id\<close> token,
  or a token that \<open>b64decode\<close> rejects, or a token whose decoding does not parse as exactly
  three segments (an empty token is one of these), the request is handled, the override flag
  is set, and that is the only change to the environment the wrapped application left behind:
  no callback is installed.
\<close>

theorem malformed_token_withholds_keys:
  assumes m: "req_method env = ''GET'' \<or> req_method env = ''HEAD''"
    and sp: "split_path (path_info env) 2 4 = Some [ver, Some acc, Some cont, Some ob]"
    and lvl: "cont \<noteq> []" "ob \<noteq> []"
    and ap: "app km env = (resp, env1)"
    and bad: "case response_header_value (resp_headers resp) (pfx @ ''crypto-id'') of
                None \<Rightarrow> True
              | Some tok \<Rightarrow> (case b64decode tok of None \<Rightarrow> True
                             | Some p \<Rightarrow> split_path p 3 3 = None)"
  shows "\<exists>r. call km pfx inh env = Handled r
           \<and> crypto_override (res_environ r)
           \<and> fetch_crypto_keys_env (res_environ r) = fetch_crypto_keys_env env1
           \<and> res_environ r = env1\<lparr>crypto_override := True\<rparr>"
proof -
  let ?self = "TrivialKeyMasterContext km acc (Some cont) (Some ob)"
  have op: "truthy (obj_path ?self)"
    using lvl by (rule object_level_obj_path_truthy)
  have ap': "app (keymaster ?self) env = (resp, env1)"
    using ap by simp
  show ?thesis
    unfolding call_get_or_head [OF m sp] handle_get_or_head_malformed [OF op ap' bad]
    by simp
qed

theorem malformed_token_withholds_keys_witness:
  "(\<exists>r. call (TrivialKeyMaster (example_app []) Map.empty)
            ''x-object-sysmeta-'' (\<lambda>name. False) (example_request ''GET'' ''/v1/a/c/o'')
          = Handled r
        \<and> crypto_override (res_environ r) \<and> fetch_crypto_keys_env (res_environ r) = None)
   \<and> (\<exists>r. call (TrivialKeyMaster
              (example_app [(''X-Object-Sysmeta-Crypto-Id'', ''L2EvYy9'')]) Map.empty)
            ''x-object-sysmeta-'' (\<lambda>name. False) (example_request ''HEAD'' ''/v1/a/c/o'')
          = Handled r
        \<and> crypto_override (res_environ r) \<and> fetch_crypto_keys_env (res_environ r) = None)
   \<and> (\<exists>r. call (TrivialKeyMaster
              (example_app [(''X-Object-Sysmeta-Crypto-Id'', b64encode ''/a/c'')]) Map.empty)
            ''x-object-sysmeta-'' (\<lambda>name. False) (example_request ''GET'' ''/v1/a/c/o'')
          = Handled r
        \<and> crypto_override (res_environ r) \<and> fetch_crypto_keys_env (res_environ r) = None)"
proof -
  let ?pfx = "''x-object-sysmeta-''"
  have sp: "split_path (path_info (example_request m ''/v1/a/c/o'')) 2 4
            = Some [Some ''v1'', Some ''a'', Some ''c'', Some ''o'']" for m
    unfolding example_request_def request.simps by code_simp
  have lvl: "''c'' \<noteq> []" "''o'' \<noteq> []" by simp_all
  have ap: "app (TrivialKeyMaster (example_app hs) Map.empty) (example_request m ''/v1/a/c/o'')
            = (\<lparr>resp_status = ''200 OK'', resp_headers = hs, resp_body = ''data''\<rparr>,
               example_request m ''/v1/a/c/o'')" for hs m
    by (simp add: TrivialKeyMaster_def example_app_def)
  have none: "fetch_crypto_keys_env (example_request m p) = None" for m p
    by (simp add: example_request_def)
  have m1: "req_method (example_request ''GET'' p) = ''GET''
            \<or> req_method (example_request ''GET'' p) = ''HEAD''" for p
    by (simp add: example_request_def)
  have m2: "req_method (example_request ''HEAD'' p) = ''GET''
            \<or> req_method (example_request ''HEAD'' p) = ''HEAD''" for p
    by (simp add: example_request_def)
  have absent: "case response_header_value
                  (resp_headers \<lparr>resp_status = ''200 OK'', resp_headers = [], resp_body = ''data''\<rparr>)
                  (?pfx @ ''crypto-id'') of
                None \<Rightarrow> True
              | Some tok \<Rightarrow> (case b64decode tok of None \<Rightarrow> True
                             | Some p \<Rightarrow> split_path p 3 3 = None)"
    by simp
  have lookup: "response_header_value [(''X-Object-Sysmeta-Crypto-Id'', v)] (?pfx @ ''crypto-id'')
                = Some v" for v
  proof -
    have "lower ''X-Object-Sysmeta-Crypto-Id'' = lower (?pfx @ ''crypto-id'')" by code_simp
    then show ?thesis by simp
  qed
  have d1: "b64decode ''L2EvYy9'' = None"
    by (simp add: b64decode_def b64_value_def)
  have undecodable: "case response_header_value
                  (resp_headers \<lparr>resp_status = ''200 OK'',
                     resp_headers = [(''X-Object-Sysmeta-Crypto-Id'', ''L2EvYy9'')],
                     resp_body = ''data''\<rparr>)
                  (?pfx @ ''crypto-id'') of
                None \<Rightarrow> True
              | Some tok \<Rightarrow> (case b64decode tok of None \<Rightarrow> True
                             | Some p \<Rightarrow> split_path p 3 3 = None)"
    by (simp only: response.simps lookup d1 option.case)
  have d2: "split_path ''/a/c'' 3 3 = None" by code_simp
  have two_segments: "case response_header_value
                  (resp_headers \<lparr>resp_status = ''200 OK'',
                     resp_headers = [(''X-Object-Sysmeta-Crypto-Id'', b64encode ''/a/c'')],
                     resp_body = ''data''\<rparr>)
                  (?pfx @ ''crypto-id'') of
                None \<Rightarrow> True
              | Some tok \<Rightarrow> (case b64decode tok of None \<Rightarrow> True
                             | Some p \<Rightarrow> split_path p 3 3 = None)"
    by (simp only: response.simps lookup b64decode_b64encode d2 option.case)
  from malformed_token_withholds_keys [OF m1 sp lvl ap absent, of "\<lambda>name. False"]
    malformed_token_withholds_keys [OF m2 sp lvl ap undecodable, of "\<lambda>name. False"]
    malformed_token_withholds_keys [OF m1 sp lvl ap two_segments, of "\<lambda>name. False"]
  show ?thesis
    unfolding none by blast
qed

text \<open>
  C6 says that the token made on object PUT, decoded as GET and HEAD decode it, gives back
  the account, the container and the object of every object path. The PUT of \<open>/v1/a/c//o\<close>
  (object \<open>/o\<close> in container \<open>c\<close> of account \<open>a\<close>) stores the token of \<open>/o\<close>, the
  object path that \<open>os.path.join\<close> leaves in \<open>_init_keys\<close>; \<open>b64decode\<close> returns
  \<open>/o\<close>, which \<open>split_path\<close> does not accept as three segments, and a GET of the same
  object whose response carries the stored token ends in the override state with no callback
  installed. The comment in \<open>PUT\<close> states that the key id is saved to calculate the object's
  key on a GET or HEAD. The defect is the one of C5 and C7.
\<close>

theorem key_id_of_leading_slash_object_is_not_recovered:
  "(\<exists>r. call km pfx inh (example_request ''PUT'' ''/v1/a/c//o'') = Handled r
        \<and> req_headers (res_forwarded r) (pfx @ ''crypto-id'') = Some (b64encode ''/o''))
   \<and> b64decode (b64encode ''/o'') = Some ''/o''
   \<and> split_path ''/o'' 3 3 = None
   \<and> (\<exists>r. call (TrivialKeyMaster (example_app [(pfx @ ''crypto-id'', b64encode ''/o'')]) conf)
              pfx inh (example_request ''GET'' ''/v1/a/c//o'') = Handled r
        \<and> crypto_override (res_environ r)
        \<and> fetch_crypto_keys_env (res_environ r) = None)"
proof (intro conjI)
  let ?put = "example_request ''PUT'' ''/v1/a/c//o''"
  let ?self = "TrivialKeyMasterContext km ''a'' (Some ''c'') (Some ''/o'')"
  have sp: "split_path (path_info (example_request m ''/v1/a/c//o'')) 2 4
            = Some [Some ''v1'', Some ''a'', Some ''c'', Some ''/o'']" for m
    unfolding example_request_def request.simps by code_simp
  have lvl: "''c'' \<noteq> []" "''/o'' \<noteq> []" by simp_all
  have o: "os_path_join (os_path_join (os_path_join ''/'' [''a'']) [''c'']) [''/o''] = ''/o''"
    by code_simp
  have m: "req_method ?put = ''PUT''" by (simp add: example_request_def)
  let ?put' = "?put\<lparr>req_headers := (req_headers ?put)(pfx @ ''crypto-id'' \<mapsto> b64encode ''/o'')\<rparr>"
  from handle_post_or_put_Inr [of ?self ?put']
  show "\<exists>r. call km pfx inh ?put = Handled r
          \<and> req_headers (res_forwarded r) (pfx @ ''crypto-id'') = Some (b64encode ''/o'')"
    unfolding call_PUT [OF m sp] PUT_object_level [OF lvl] o by auto
  show dec: "b64decode (b64encode ''/o'') = Some ''/o''"
    by (rule b64decode_b64encode)
  show par: "split_path ''/o'' 3 3 = None"
    by code_simp
  let ?hs = "[(pfx @ ''crypto-id'', b64encode ''/o'')]"
  let ?km = "TrivialKeyMaster (example_app ?hs) conf"
  let ?get = "example_request ''GET'' ''/v1/a/c//o''"
  have ap: "app ?km ?get = (\<lparr>resp_status = ''200 OK'', resp_headers = ?hs, resp_body = ''data''\<rparr>, ?get)"
    by (rule example_app_answer)
  have bad: "case response_header_value
                 (resp_headers \<lparr>resp_status = ''200 OK'', resp_headers = ?hs, resp_body = ''data''\<rparr>)
                 (pfx @ ''crypto-id'') of
               None \<Rightarrow> True
             | Some tok \<Rightarrow> (case b64decode tok of None \<Rightarrow> True
                            | Some p \<Rightarrow> split_path p 3 3 = None)"
    by (simp only: response.simps response_header_value_same dec par option.case)
  have none: "fetch_crypto_keys_env ?get = None" by (simp add: example_request_def)
  let ?gself = "TrivialKeyMasterContext ?km ''a'' (Some ''c'') (Some ''/o'')"
  have op: "truthy (obj_path ?gself)"
    using lvl by (rule object_level_obj_path_truthy)
  have ap': "app (keymaster ?gself) ?get
             = (\<lparr>resp_status = ''200 OK'', resp_headers = ?hs, resp_body = ''data''\<rparr>, ?get)"
    using ap by simp
  show "\<exists>r. call ?km pfx inh ?get = Handled r
        \<and> crypto_override (res_environ r) \<and> fetch_crypto_keys_env (res_environ r) = None"
    unfolding call_get_or_head [OF example_get sp] handle_get_or_head_malformed [OF op ap' bad]
    by (simp add: none)
qed

theorem key_id_of_leading_slash_object_is_not_recovered_witness:
  "(\<exists>r. call (TrivialKeyMaster (example_app []) Map.empty) ''x-object-sysmeta-'' (\<lambda>name. False)
          (example_request ''PUT'' ''/v1/a/c//o'') = Handled r
        \<and> req_headers (res_forwarded r) ''x-object-sysmeta-crypto-id'' = Some (b64encode ''/o''))
   \<and> (\<exists>r. call (TrivialKeyMaster
              (example_app [(''x-object-sysmeta-crypto-id'', b64encode ''/o'')]) Map.empty)
            ''x-object-sysmeta-'' (\<lambda>name. False) (example_request ''GET'' ''/v1/a/c//o'')
          = Handled r
        \<and> crypto_override (res_environ r) \<and> fetch_crypto_keys_env (res_environ r) = None)"
  using key_id_of_leading_slash_object_is_not_recovered
    [of "TrivialKeyMaster (example_app []) Map.empty" "''x-object-sysmeta-''" "\<lambda>name. False"
      Map.empty]
  by simp

text \<open>
  What PUT and the decoding of GET and HEAD do establish: for an account and a container that
  are not empty and hold no separator, and an object name that is not empty and does not begin
  with the separator, PUT stores the token \<open>b64encode\<close> of \<open>/account/container/object\<close>;
  \<open>b64decode\<close> of that token returns the path string, \<open>split_path\<close> with exactly three
  segments returns the account, the container and the object, and \<open>key_id_paths\<close>, on a
  response that carries the token, returns the container path and the object path of the
  original.
\<close>

theorem key_id_round_trip_through_put:
  assumes "acc \<noteq> []" "CHR ''/'' \<notin> set acc" "c \<noteq> []" "CHR ''/'' \<notin> set c"
    and "ob \<noteq> []" "\<not> startswith ob ''/''"
  shows "(\<exists>r. PUT pfx (TrivialKeyMasterContext km acc (Some c) (Some ob)) req = Inr r
           \<and> req_headers (res_forwarded r) (pfx @ ''crypto-id'')
               = Some (b64encode (''/'' @ acc @ ''/'' @ c @ ''/'' @ ob)))
       \<and> b64decode (b64encode (''/'' @ acc @ ''/'' @ c @ ''/'' @ ob))
           = Some (''/'' @ acc @ ''/'' @ c @ ''/'' @ ob)
       \<and> split_path (''/'' @ acc @ ''/'' @ c @ ''/'' @ ob) 3 3 = Some [Some acc, Some c, Some ob]
       \<and> (response_headers self
             = Some [(pfx @ ''crypto-id'', b64encode (''/'' @ acc @ ''/'' @ c @ ''/'' @ ob))]
           \<longrightarrow> key_id_paths pfx self
                 = Inr (''/'' @ acc @ ''/'' @ c, ''/'' @ acc @ ''/'' @ c @ ''/'' @ ob))"
proof (intro conjI impI)
  let ?P = "''/'' @ acc @ ''/'' @ c @ ''/'' @ ob"
  let ?self = "TrivialKeyMasterContext km acc (Some c) (Some ob)"
  have p: "os_path_join (os_path_join (os_path_join ''/'' [acc]) [c]) [ob] = ?P"
    using assms(1-4,6) by (rule join_object_path)
  let ?req = "req\<lparr>req_headers := (req_headers req)(pfx @ ''crypto-id'' \<mapsto> b64encode ?P)\<rparr>"
  from handle_post_or_put_Inr [of ?self ?req]
  show "\<exists>r. PUT pfx ?self req = Inr r
          \<and> req_headers (res_forwarded r) (pfx @ ''crypto-id'') = Some (b64encode ?P)"
    unfolding PUT_object_level [OF assms(3,5)] p by auto
  show dec: "b64decode (b64encode ?P) = Some ?P"
    by (rule b64decode_b64encode)
  show par: "split_path ?P 3 3 = Some [Some acc, Some c, Some ob]"
    using assms(1-5) by (rule split_path_3_3_I)
  assume hs: "response_headers self = Some [(pfx @ ''crypto-id'', b64encode ?P)]"
  show "key_id_paths pfx self = Inr (''/'' @ acc @ ''/'' @ c, ?P)"
    by (rule key_id_paths_resolved(1) [OF hs response_header_value_same dec par])
qed

theorem key_id_round_trip_through_put_witness:
  "(\<exists>r. PUT ''x-object-sysmeta-''
            (TrivialKeyMasterContext (TrivialKeyMaster (example_app []) Map.empty)
               ''AUTH_test'' (Some ''photos'') (Some ''2015/beach.jpg''))
            (example_request ''PUT'' ''/v1/AUTH_test/photos/2015/beach.jpg'') = Inr r
      \<and> req_headers (res_forwarded r) ''x-object-sysmeta-crypto-id''
          = Some (b64encode ''/AUTH_test/photos/2015/beach.jpg''))
   \<and> b64decode (b64encode ''/AUTH_test/photos/2015/beach.jpg'')
       = Some ''/AUTH_test/photos/2015/beach.jpg''
   \<and> split_path ''/AUTH_test/photos/2015/beach.jpg'' 3 3
       = Some [Some ''AUTH_test'', Some ''photos'', Some ''2015/beach.jpg'']
   \<and> key_id_paths ''x-object-sysmeta-''
         ((TrivialKeyMasterContext (TrivialKeyMaster (example_app []) Map.empty)
             ''AUTH_test'' (Some ''elsewhere'') (Some ''copy.jpg''))
          \<lparr>response_headers := Some [(''x-object-sysmeta-crypto-id'',
              b64encode ''/AUTH_test/photos/2015/beach.jpg'')]\<rparr>)
       = Inr (''/AUTH_test/photos'', ''/AUTH_test/photos/2015/beach.jpg'')"
proof -
  have h: "''AUTH_test'' \<noteq> []" "CHR ''/'' \<notin> set ''AUTH_test''" "''photos'' \<noteq> []"
    "CHR ''/'' \<notin> set ''photos''" "''2015/beach.jpg'' \<noteq> []"
    "\<not> startswith ''2015/beach.jpg'' ''/''"
    by (simp_all add: startswith_def)
  let ?km = "TrivialKeyMaster (example_app []) Map.empty"
  let ?self = "(TrivialKeyMasterContext ?km ''AUTH_test'' (Some ''elsewhere'') (Some ''copy.jpg''))
          \<lparr>response_headers := Some [(''x-object-sysmeta-crypto-id'',
              b64encode ''/AUTH_test/photos/2015/beach.jpg'')]\<rparr>"
  have hs: "response_headers ?self = Some [(''x-object-sysmeta-'' @ ''crypto-id'',
            b64encode (''/'' @ ''AUTH_test'' @ ''/'' @ ''photos'' @ ''/'' @ ''2015/beach.jpg''))]"
    by simp
  from key_id_round_trip_through_put [OF h, where pfx = "''x-object-sysmeta-''" and km = ?km
      and req = "example_request ''PUT'' ''/v1/AUTH_test/photos/2015/beach.jpg''"
      and self = ?self] hs
  show ?thesis by simp
qed

subsection \<open>The key-requirement check is not on the completion path\<close>

text \<open>
  C3 says that a request for which no keys were supplied, and whose response carries a
  crypto-meta sysmeta header of its server type, ends as an unprocessable-request failure. In
  \<open>provide_keys_get_or_head\<close> the call of \<open>error_if_need_keys\<close> is commented out ("disable
  the check for now"), and nothing else calls it. At the request below no token is stored, so no
  callback is installed, the response carries \<open>X-Object-Sysmeta-Crypto-Meta-Etag\<close>, on which
  \<open>error_if_need_keys\<close> would raise \<open>HTTPUnprocessableEntity\<close>, and the request is answered
  with the wrapped application's status 200.
\<close>

theorem no_keys_but_crypto_meta_still_answered:
  "(case call (TrivialKeyMaster (example_app [(''X-Object-Sysmeta-Crypto-Meta-Etag'', ''m'')])
                 Map.empty)
           ''x-object-sysmeta-'' (\<lambda>name. False) (example_request ''GET'' ''/v1/a/c/o'') of
      Handled r \<Rightarrow>
        res_status r = Some ''200 OK''
        \<and> res_headers r = Some [(''X-Object-Sysmeta-Crypto-Meta-Etag'', ''m'')]
        \<and> fetch_crypto_keys_env (res_environ r) = None
        \<and> error_if_need_keys (res_context r) (res_environ r)
            = Inl (HTTPUnprocessableEntity ''Cannot get necessary keys for path /v1/a/c/o'')
    | _ \<Rightarrow> False)"
proof -
  let ?hs = "[(''X-Object-Sysmeta-Crypto-Meta-Etag'', ''m'')]"
  let ?km = "TrivialKeyMaster (example_app ?hs) Map.empty"
  let ?env = "example_request ''GET'' ''/v1/a/c/o''"
  let ?self = "TrivialKeyMasterContext ?km ''a'' (Some ''c'') (Some ''o'')"
  have lvl: "''c'' \<noteq> []" "''o'' \<noteq> []" by simp_all
  have op: "truthy (obj_path ?self)"
    using lvl by (rule object_level_obj_path_truthy)
  have ap: "app (keymaster ?self) ?env
            = (\<lparr>resp_status = ''200 OK'', resp_headers = ?hs, resp_body = ''data''\<rparr>, ?env)"
    by (simp add: example_app_answer)
  have bad: "case response_header_value
                 (resp_headers \<lparr>resp_status = ''200 OK'', resp_headers = ?hs, resp_body = ''data''\<rparr>)
                 (''x-object-sysmeta-'' @ ''crypto-id'') of
               None \<Rightarrow> True
             | Some tok \<Rightarrow> (case b64decode tok of None \<Rightarrow> True
                            | Some p \<Rightarrow> split_path p 3 3 = None)"
  proof -
    have "lower ''X-Object-Sysmeta-Crypto-Meta-Etag'' \<noteq> lower (''x-object-sysmeta-'' @ ''crypto-id'')"
      by code_simp
    then show ?thesis by simp
  qed
  have e: "error_if_need_keys
             (?self\<lparr>response_status := Some ''200 OK'', response_headers := Some ?hs\<rparr>) req
           = Inl (HTTPUnprocessableEntity (''Cannot get necessary keys for path '' @ path_info req))"
    for req
    by (rule error_if_need_keys_raises [OF conjunct1 [OF example_crypto_meta_context]
          conjunct2 [OF example_crypto_meta_context]])
  show ?thesis
    unfolding call_get_or_head [OF example_get example_split_object]
      handle_get_or_head_malformed [OF op ap bad]
    by (simp add: e) (simp add: example_request_def)
qed

text \<open>
  C3 as the code has it. The dispatcher never answers with an unprocessable-request failure;
  every GET or HEAD request that it handles completes with the status, headers and body of the
  wrapped application's response, whether or not keys were supplied and whatever headers the
  response carries; and \<open>error_if_need_keys\<close>, where it is called on a context whose response
  headers hold a crypto-meta sysmeta header of the context's server type, raises
  \<open>HTTPUnprocessableEntity\<close>.
\<close>

theorem get_or_head_returns_downstream_response:
  "call km pfx inh env \<noteq> Error_response e
   \<and> ((req_method env = ''GET'' \<or> req_method env = ''HEAD'')
        \<and> split_path (path_info env) 2 4 \<noteq> None \<and> app km env = (resp, env1)
      \<longrightarrow> (\<exists>r. call km pfx inh env = Handled r
                \<and> res_status r = Some (resp_status resp)
                \<and> res_headers r = Some (resp_headers resp)
                \<and> res_body r = resp_body resp))
   \<and> (response_headers self = Some hs
        \<and> list_ex (\<lambda>(h, v). startswith (lower (strip_sys_meta_prefix (server_type self) h))
                                  ''crypto-meta-'')
             (filter (\<lambda>(h, v). is_sys_meta (server_type self) h) hs)
      \<longrightarrow> error_if_need_keys self req
          = Inl (HTTPUnprocessableEntity (''Cannot get necessary keys for path '' @ path_info req)))"
proof (intro conjI impI)
  show "call km pfx inh env \<noteq> Error_response e"
    by (rule call_not_error_response)
next
  assume a: "(req_method env = ''GET'' \<or> req_method env = ''HEAD'')
             \<and> split_path (path_info env) 2 4 \<noteq> None \<and> app km env = (resp, env1)"
  then obtain parts where "split_path (path_info env) 2 4 = Some parts" by auto
  with split_path_2_4_D [OF this] obtain ver acc cont ob where
    sp: "split_path (path_info env) 2 4 = Some [Some ver, Some acc, cont, ob]" by auto
  from a have m: "req_method env = ''GET'' \<or> req_method env = ''HEAD''" by simp
  from a have "app (keymaster (TrivialKeyMasterContext km acc cont ob)) env = (resp, env1)"
    by simp
  from handle_get_or_head_response [OF this, of pfx]
  show "\<exists>r. call km pfx inh env = Handled r \<and> res_status r = Some (resp_status resp)
          \<and> res_headers r = Some (resp_headers resp) \<and> res_body r = resp_body resp"
    unfolding call_get_or_head [OF m sp] by auto
next
  assume a: "response_headers self = Some hs
          \<and> list_ex (\<lambda>(h, v). startswith (lower (strip_sys_meta_prefix (server_type self) h))
                                  ''crypto-meta-'')
               (filter (\<lambda>(h, v). is_sys_meta (server_type self) h) hs)"
  show "error_if_need_keys self req
      = Inl (HTTPUnprocessableEntity (''Cannot get necessary keys for path '' @ path_info req))"
    by (rule error_if_need_keys_raises [OF conjunct1 [OF a] conjunct2 [OF a]])
qed

theorem get_or_head_returns_downstream_response_witness:
  "(\<exists>r. call (TrivialKeyMaster (example_app [(''X-Object-Sysmeta-Crypto-Meta-Etag'', ''m'')])
                Map.empty)
          ''x-object-sysmeta-'' (\<lambda>name. False) (example_request ''GET'' ''/v1/a/c/o'')
        = Handled r
      \<and> res_status r = Some ''200 OK''
      \<and> res_headers r = Some [(''X-Object-Sysmeta-Crypto-Meta-Etag'', ''m'')]
      \<and> res_body r = ''data'')
   \<and> error_if_need_keys
        ((TrivialKeyMasterContext
            (TrivialKeyMaster (example_app [(''X-Object-Sysmeta-Crypto-Meta-Etag'', ''m'')])
               Map.empty) ''a'' (Some ''c'') (Some ''o''))
          \<lparr>response_status := Some ''200 OK'',
           response_headers := Some [(''X-Object-Sysmeta-Crypto-Meta-Etag'', ''m'')]\<rparr>)
        (example_request ''GET'' ''/v1/a/c/o'')
      = Inl (HTTPUnprocessableEntity ''Cannot get necessary keys for path /v1/a/c/o'')"
proof -
  let ?hs = "[(''X-Object-Sysmeta-Crypto-Meta-Etag'', ''m'')]"
  let ?km = "TrivialKeyMaster (example_app ?hs) Map.empty"
  let ?env = "example_request ''GET'' ''/v1/a/c/o''"
  let ?resp = "\<lparr>resp_status = ''200 OK'', resp_headers = ?hs, resp_body = ''data''\<rparr>"
  let ?self1 = "(TrivialKeyMasterContext ?km ''a'' (Some ''c'') (Some ''o''))
          \<lparr>response_status := Some ''200 OK'', response_headers := Some ?hs\<rparr>"
  have h: "(req_method ?env = ''GET'' \<or> req_method ?env = ''HEAD'')
           \<and> split_path (path_info ?env) 2 4 \<noteq> None \<and> app ?km ?env = (?resp, ?env)"
    using example_get [of "''/v1/a/c/o''"] example_split_object [of "''GET''"]
    by (simp add: example_app_answer)
  note t = get_or_head_returns_downstream_response
    [where km = ?km and pfx = "''x-object-sysmeta-''" and inh = "\<lambda>name. False" and env = ?env
      and resp = ?resp and ?env1.0 = ?env and self = ?self1 and hs = ?hs and req = ?env
      and e = ValueError]
  from t [THEN conjunct2, THEN conjunct1, THEN mp, OF h]
  have 1: "\<exists>r. call ?km ''x-object-sysmeta-'' (\<lambda>name. False) ?env = Handled r
      \<and> res_status r = Some ''200 OK'' \<and> res_headers r = Some ?hs \<and> res_body r = ''data''"
    by simp
  from t [THEN conjunct2, THEN conjunct2, THEN mp, OF example_crypto_meta_context]
  have 2: "error_if_need_keys ?self1 ?env
      = Inl (HTTPUnprocessableEntity ''Cannot get necessary keys for path /v1/a/c/o'')"
    by (simp add: example_request_def)
  from 1 2 show ?thesis by (rule conjI)
qed

subsection \<open>When the callback is installed\<close>

text \<open>
  C9 says that the callback is installed only when the KeySet is not empty and never when the
  request is in the override state. An account-level GET has the empty KeySet and gets the
  callback all the same; a POST that arrives with the override flag set is forwarded with the
  callback installed.
\<close>

theorem callback_installed_for_empty_keyset_and_under_override:
  "(case call (TrivialKeyMaster (example_app []) Map.empty) ''x-object-sysmeta-''
           (\<lambda>name. False) (example_request ''GET'' ''/v1/a'') of
      Handled r \<Rightarrow> fetch_crypto_keys (res_context r) = Map.empty
                   \<and> fetch_crypto_keys_env (res_environ r) = Some Map.empty
    | _ \<Rightarrow> False)
   \<and> (case call (TrivialKeyMaster (example_app []) Map.empty) ''x-object-sysmeta-''
           (\<lambda>name. False) ((example_request ''POST'' ''/v1/a'')\<lparr>crypto_override := True\<rparr>) of
      Handled r \<Rightarrow> crypto_override (res_forwarded r)
                   \<and> fetch_crypto_keys_env (res_forwarded r) = Some Map.empty
    | _ \<Rightarrow> False)"
proof -
  let ?km = "TrivialKeyMaster (example_app []) Map.empty"
  let ?self = "TrivialKeyMasterContext ?km ''a'' None None"
  have nt: "\<not> truthy None" by (simp add: truthy_def)
  have op: "\<not> truthy (obj_path ?self)"
    by (simp add: context_account_level [OF nt] truthy_def)
  have k: "keys ?self = Map.empty"
    by (simp add: context_account_level [OF nt])
  have ap: "app (keymaster ?self) env
            = (\<lparr>resp_status = ''200 OK'', resp_headers = [], resp_body = ''data''\<rparr>, env)" for env
    by (simp add: example_app_answer)
  have 1: "(case call ?km ''x-object-sysmeta-'' (\<lambda>name. False) (example_request ''GET'' ''/v1/a'') of
      Handled r \<Rightarrow> fetch_crypto_keys (res_context r) = Map.empty
                   \<and> fetch_crypto_keys_env (res_environ r) = Some Map.empty
    | _ \<Rightarrow> False)"
    unfolding call_get_or_head [OF example_get example_split_account]
      handle_get_or_head_not_object [OF op ap]
    by (simp add: k fetch_crypto_keys_def example_request_def)
  let ?post = "(example_request ''POST'' ''/v1/a'')\<lparr>crypto_override := True\<rparr>"
  have m: "req_method ?post = ''POST''" by (simp add: example_request_def)
  have sp: "split_path (path_info ?post) 2 4 = Some [Some ''v1'', Some ''a'', None, None]"
    using example_split_account [of "''POST''"] by (simp add: example_request_def)
  have 2: "(case call ?km ''x-object-sysmeta-'' (\<lambda>name. False) ?post of
      Handled r \<Rightarrow> crypto_override (res_forwarded r)
                   \<and> fetch_crypto_keys_env (res_forwarded r) = Some Map.empty
    | _ \<Rightarrow> False)"
    unfolding call_post_or_put [OF m sp] handle_post_or_put_response [OF ap]
    by (simp add: k)
  from 1 2 show ?thesis by (rule conjI)
qed

text \<open>
  C9 as the code has it. For every handled PUT or POST request the callback is installed
  before the request is forwarded, whatever the KeySet and whatever the override flag, which is
  forwarded as it came. For every handled GET or HEAD request the callback, supplying the
  context's KeySet, is installed exactly when the request is not in the override state once the
  response has been examined; in the override state the environment's callback entry stays as
  the wrapped application left it.
\<close>

theorem callback_installation:
  assumes sp: "split_path (path_info env) 2 4 \<noteq> None"
  shows "(req_method env = ''PUT'' \<or> req_method env = ''POST''
          \<longrightarrow> (\<exists>r. call km pfx inh env = Handled r
                   \<and> fetch_crypto_keys_env (res_forwarded r) = Some (fetch_crypto_keys (res_context r))
                   \<and> crypto_override (res_forwarded r) = crypto_override env))
       \<and> ((req_method env = ''GET'' \<or> req_method env = ''HEAD'') \<and> app km env = (resp, env1)
          \<longrightarrow> (\<exists>r. call km pfx inh env = Handled r
                   \<and> (if crypto_override (res_environ r)
                       then fetch_crypto_keys_env (res_environ r) = fetch_crypto_keys_env env1
                       else fetch_crypto_keys_env (res_environ r)
                            = Some (fetch_crypto_keys (res_context r)))))"
proof -
  from sp obtain parts where "split_path (path_info env) 2 4 = Some parts" by auto
  with split_path_2_4_D [OF this] obtain ver acc cont ob where
    sp': "split_path (path_info env) 2 4 = Some [Some ver, Some acc, cont, ob]" by auto
  let ?self = "TrivialKeyMasterContext km acc cont ob"
  show ?thesis
  proof (intro conjI impI)
    assume "req_method env = ''PUT'' \<or> req_method env = ''POST''"
    then show "\<exists>r. call km pfx inh env = Handled r
         \<and> fetch_crypto_keys_env (res_forwarded r) = Some (fetch_crypto_keys (res_context r))
         \<and> crypto_override (res_forwarded r) = crypto_override env"
    proof
      assume m: "req_method env = ''PUT''"
      obtain env' where p: "PUT pfx ?self env = handle_post_or_put ?self env'"
        and o: "crypto_override env' = crypto_override env"
        by (cases "obj_path ?self") (auto simp: PUT_def)
      from handle_post_or_put_Inr [of ?self env'] o show ?thesis
        unfolding call_PUT [OF m sp'] p by auto
    next
      assume m: "req_method env = ''POST''"
      from handle_post_or_put_Inr [of ?self env] show ?thesis
        unfolding call_post_or_put [OF m sp'] by auto
    qed
  next
    assume a: "(req_method env = ''GET'' \<or> req_method env = ''HEAD'') \<and> app km env = (resp, env1)"
    then have m: "req_method env = ''GET'' \<or> req_method env = ''HEAD''"
      and "app (keymaster ?self) env = (resp, env1)" by simp_all
    from handle_get_or_head_response [OF this(2), of pfx]
    show "\<exists>r. call km pfx inh env = Handled r
         \<and> (if crypto_override (res_environ r)
             then fetch_crypto_keys_env (res_environ r) = fetch_crypto_keys_env env1
             else fetch_crypto_keys_env (res_environ r) = Some (fetch_crypto_keys (res_context r)))"
      unfolding call_get_or_head [OF m sp'] by auto
  qed
qed

theorem callback_installation_witness:
  "(\<exists>r. call (TrivialKeyMaster (example_app []) Map.empty) ''x-object-sysmeta-''
           (\<lambda>name. False) ((example_request ''POST'' ''/v1/a'')\<lparr>crypto_override := True\<rparr>)
         = Handled r
       \<and> fetch_crypto_keys_env (res_forwarded r) = Some (fetch_crypto_keys (res_context r))
       \<and> crypto_override (res_forwarded r))
   \<and> (\<exists>r. call (TrivialKeyMaster (example_app []) Map.empty) ''x-object-sysmeta-''
           (\<lambda>name. False) (example_request ''GET'' ''/v1/a'')
         = Handled r
       \<and> (if crypto_override (res_environ r)
           then fetch_crypto_keys_env (res_environ r) = None
           else fetch_crypto_keys_env (res_environ r) = Some (fetch_crypto_keys (res_context r))))"
proof -
  let ?km = "TrivialKeyMaster (example_app []) Map.empty"
  let ?post = "(example_request ''POST'' ''/v1/a'')\<lparr>crypto_override := True\<rparr>"
  let ?get = "example_request ''GET'' ''/v1/a''"
  let ?resp = "\<lparr>resp_status = ''200 OK'', resp_headers = [], resp_body = ''data''\<rparr>"
  have sp1: "split_path (path_info ?post) 2 4 \<noteq> None"
    using example_split_account [of "''POST''"] by (simp add: example_request_def)
  have m1: "req_method ?post = ''PUT'' \<or> req_method ?post = ''POST''"
    by (simp add: example_request_def)
  have sp2: "split_path (path_info ?get) 2 4 \<noteq> None"
    using example_split_account [of "''GET''"] by simp
  have m2: "(req_method ?get = ''GET'' \<or> req_method ?get = ''HEAD'') \<and> app ?km ?get = (?resp, ?get)"
    using example_get [of "''/v1/a''"] by (simp add: example_app_answer)
  have o: "crypto_override ?post" "fetch_crypto_keys_env ?get = None"
    by (simp_all add: example_request_def)
  from callback_installation [OF sp1, where km = ?km and pfx = "''x-object-sysmeta-''"
      and inh = "\<lambda>name. False"] m1 o(1)
  have 1: "\<exists>r. call ?km ''x-object-sysmeta-'' (\<lambda>name. False) ?post = Handled r
       \<and> fetch_crypto_keys_env (res_forwarded r) = Some (fetch_crypto_keys (res_context r))
       \<and> crypto_override (res_forwarded r)"
    by auto
  from callback_installation [OF sp2, where km = ?km and pfx = "''x-object-sysmeta-''"
      and inh = "\<lambda>name. False" and resp = ?resp and ?env1.0 = ?get] m2 o(2)
  have 2: "\<exists>r. call ?km ''x-object-sysmeta-'' (\<lambda>name. False) ?get = Handled r
       \<and> (if crypto_override (res_environ r)
           then fetch_crypto_keys_env (res_environ r) = None
           else fetch_crypto_keys_env (res_environ r) = Some (fetch_crypto_keys (res_context r)))"
    by auto
  from 1 2 show ?thesis by (rule conjI)
qed

subsection \<open>The dispatcher\<close>

text \<open>
  C8 says that a context is built and called exactly for the methods PUT, POST, GET and HEAD,
  and that every other method is passed through. \<open>__call__\<close> tests
  \<open>hasattr(TrivialKeyMasterContext, req.method)\<close>, which also holds for the other
  attributes of the class. A request whose method is \<open>_handle_get_or_head\<close> gets a context
  and is handled as a GET is; a request whose method is \<open>fetch_crypto_keys\<close> gets a context
  and ends in a \<open>TypeError\<close>, since that method takes no request. The comment in
  \<open>__call__\<close> reads "handle only those request methods that may require keys".
\<close>

theorem other_attribute_names_are_dispatched:
  "(\<exists>r. call km pfx inh (example_request ''_handle_get_or_head'' ''/v1/a'') = Handled r
        \<and> res_context r = (TrivialKeyMasterContext km ''a'' None None)
             \<lparr>response_status := res_status r, response_headers := res_headers r\<rparr>)
   \<and> call km pfx inh (example_request ''fetch_crypto_keys'' ''/v1/a'') = Raised TypeError"
proof -
  let ?self = "TrivialKeyMasterContext km ''a'' None None"
  let ?env = "example_request ''_handle_get_or_head'' ''/v1/a''"
  have sp: "split_path (path_info (example_request m ''/v1/a'')) 2 4
            = Some [Some ''v1'', Some ''a'', None, None]" for m
    by (rule example_split_account)
  have m1: "req_method ?env = ''_handle_get_or_head''"
    and m2: "req_method (example_request ''fetch_crypto_keys'' ''/v1/a'') = ''fetch_crypto_keys''"
    by (simp_all add: example_request_def)
  have nt: "\<not> truthy None" by (simp add: truthy_def)
  have op: "\<not> truthy (obj_path ?self)"
    by (simp add: context_account_level [OF nt] truthy_def)
  obtain resp env1 where ap: "app (keymaster ?self) ?env = (resp, env1)"
    by (metis surj_pair)
  have 1: "call km pfx inh ?env
           = (case handle_get_or_head pfx ?self ?env of
                Inr r \<Rightarrow> Handled r
              | Inl (HTTPUnprocessableEntity msg) \<Rightarrow> Error_response (HTTPUnprocessableEntity msg)
              | Inl e \<Rightarrow> Raised e)"
    by (simp add: call_def sp m1 hasattr_def class_attributes_def call_method_def)
  have 2: "call km pfx inh (example_request ''fetch_crypto_keys'' ''/v1/a'') = Raised TypeError"
    by (simp add: call_def sp m2 hasattr_def class_attributes_def call_method_def)
  show ?thesis
    unfolding 1 handle_get_or_head_not_object [OF op ap] using 2 by simp
qed

theorem other_attribute_names_are_dispatched_witness:
  "call (TrivialKeyMaster (example_app []) Map.empty) ''x-object-sysmeta-'' (\<lambda>name. False)
     (example_request ''fetch_crypto_keys'' ''/v1/a'') = Raised TypeError
   \<and> call (TrivialKeyMaster (example_app []) Map.empty) ''x-object-sysmeta-'' (\<lambda>name. False)
     (example_request ''_handle_get_or_head'' ''/v1/a'')
     \<noteq> Passed_through (app (TrivialKeyMaster (example_app []) Map.empty)
          (example_request ''_handle_get_or_head'' ''/v1/a''))"
  using other_attribute_names_are_dispatched
    [of "TrivialKeyMaster (example_app []) Map.empty" "''x-object-sysmeta-''" "\<lambda>name. False"]
  by auto

text \<open>
  What \<open>__call__\<close> does establish: a request whose path does not split into two to four
  segments, or whose method is no attribute of the context class, goes to the wrapped
  application as it came; a request whose path splits and whose method is PUT, POST, GET or
  HEAD is handled by a context; and no request whose path splits and whose method is an
  attribute of the class is passed through.
\<close>

theorem dispatch_cases:
  "(split_path (path_info env) 2 4 = None \<or> \<not> hasattr inh (req_method env)
      \<longrightarrow> call km pfx inh env = Passed_through (app km env))
   \<and> (split_path (path_info env) 2 4 \<noteq> None
        \<and> req_method env \<in> {''PUT'', ''POST'', ''GET'', ''HEAD''}
      \<longrightarrow> (\<exists>r. call km pfx inh env = Handled r))
   \<and> (split_path (path_info env) 2 4 \<noteq> None \<and> hasattr inh (req_method env)
      \<longrightarrow> call km pfx inh env \<noteq> Passed_through x)"
proof (intro conjI impI)
  assume "split_path (path_info env) 2 4 = None \<or> \<not> hasattr inh (req_method env)"
  then show "call km pfx inh env = Passed_through (app km env)"
    by (auto simp: call_def split: option.splits)
next
  assume a: "split_path (path_info env) 2 4 \<noteq> None
        \<and> req_method env \<in> {''PUT'', ''POST'', ''GET'', ''HEAD''}"
  then obtain parts where "split_path (path_info env) 2 4 = Some parts" by auto
  with split_path_2_4_D [OF this] obtain ver acc cont ob where
    sp: "split_path (path_info env) 2 4 = Some [Some ver, Some acc, cont, ob]" by auto
  let ?self = "TrivialKeyMasterContext km acc cont ob"
  obtain resp env1 where ap: "app (keymaster ?self) env = (resp, env1)"
    by (metis surj_pair)
  from a consider "req_method env = ''PUT''" | "req_method env = ''POST''"
    | "req_method env = ''GET'' \<or> req_method env = ''HEAD''" by auto
  then show "\<exists>r. call km pfx inh env = Handled r"
  proof cases
    case 1
    obtain env' where p: "PUT pfx ?self env = handle_post_or_put ?self env'"
      by (cases "obj_path ?self") (auto simp: PUT_def)
    from handle_post_or_put_Inr [of ?self env'] show ?thesis
      unfolding call_PUT [OF 1 sp] p by auto
  next
    case 2
    from handle_post_or_put_Inr [of ?self env] show ?thesis
      unfolding call_post_or_put [OF 2 sp] by auto
  next
    case 3
    from handle_get_or_head_response [OF ap, of pfx] show ?thesis
      unfolding call_get_or_head [OF 3 sp] by auto
  qed
next
  assume a: "split_path (path_info env) 2 4 \<noteq> None \<and> hasattr inh (req_method env)"
  then obtain parts where "split_path (path_info env) 2 4 = Some parts" by auto
  with split_path_2_4_D [OF this] obtain ver acc cont ob where
    sp: "split_path (path_info env) 2 4 = Some [Some ver, Some acc, cont, ob]" by auto
  from a sp show "call km pfx inh env \<noteq> Passed_through x"
    by (auto simp: call_def Let_def split: sum.splits error.splits)
qed

theorem dispatch_cases_witness:
  "call (TrivialKeyMaster (example_app []) Map.empty) ''x-object-sysmeta-'' (\<lambda>name. False)
     (example_request ''DELETE'' ''/v1/a/c/o'')
   = Passed_through (app (TrivialKeyMaster (example_app []) Map.empty)
       (example_request ''DELETE'' ''/v1/a/c/o''))
   \<and> call (TrivialKeyMaster (example_app []) Map.empty) ''x-object-sysmeta-'' (\<lambda>name. False)
     (example_request ''GET'' ''/info'')
   = Passed_through (app (TrivialKeyMaster (example_app []) Map.empty)
       (example_request ''GET'' ''/info''))
   \<and> (\<exists>r. call (TrivialKeyMaster (example_app []) Map.empty) ''x-object-sysmeta-''
           (\<lambda>name. False) (example_request ''GET'' ''/v1/a/c/o'') = Handled r)"
proof -
  let ?km = "TrivialKeyMaster (example_app []) Map.empty"
  have d: "split_path (path_info (example_request ''DELETE'' ''/v1/a/c/o'')) 2 4 = None
           \<or> \<not> hasattr (\<lambda>name. False) (req_method (example_request ''DELETE'' ''/v1/a/c/o''))"
    by (simp add: example_request_def hasattr_def class_attributes_def)
  have i: "split_path (path_info (example_request ''GET'' ''/info'')) 2 4 = None
           \<or> \<not> hasattr (\<lambda>name. False) (req_method (example_request ''GET'' ''/info''))"
  proof -
    have "split_path ''/info'' 2 4 = None" by code_simp
    then show ?thesis by (simp add: example_request_def)
  qed
  have g: "split_path (path_info (example_request ''GET'' ''/v1/a/c/o'')) 2 4 \<noteq> None
        \<and> req_method (example_request ''GET'' ''/v1/a/c/o'') \<in> {''PUT'', ''POST'', ''GET'', ''HEAD''}"
    using example_split_object [of "''GET''"] by (simp add: example_request_def)
  from dispatch_cases [where km = ?km and pfx = "''x-object-sysmeta-''" and inh = "\<lambda>name. False"
      and env = "example_request ''DELETE'' ''/v1/a/c/o''"] d
    dispatch_cases [where km = ?km and pfx = "''x-object-sysmeta-''" and inh = "\<lambda>name. False"
      and env = "example_request ''GET'' ''/info''"] i
    dispatch_cases [where km = ?km and pfx = "''x-object-sysmeta-''" and inh = "\<lambda>name. False"
      and env = "example_request ''GET'' ''/v1/a/c/o''"] g
  show ?thesis by blast
qed


end
